theory Spec2Isabelle
  imports Main "HOL-Library.Word" "HOL-Library.Signed_Division"
begin

unbundle bit_operations_syntax

section \<open>The JJY symbol buffer and its field encoders\<close>

text \<open>
  The sketches \<^verbatim>\<open>esp32_jjy40kHz_with_rtc.ino\<close> (ver. 0.10 and 0.11) and the LCD variants
  share one encoder: a global \<^verbatim>\<open>char sg[62]\<close> and the functions \<^verbatim>\<open>set_fix\<close>,
  \<^verbatim>\<open>set_min\<close>, \<^verbatim>\<open>set_hour\<close>, \<^verbatim>\<open>set_day\<close>, \<^verbatim>\<open>set_wday\<close>, \<^verbatim>\<open>set_year\<close>
  and \<^verbatim>\<open>dec2BCD\<close>.

  A \<^verbatim>\<open>char\<close> is an 8-bit word. The buffer is a list of 62 of them; every encoder writes
  at constant indices below 60, so the theorems carry \<open>length sg = 62\<close>.
  A C \<^verbatim>\<open>int\<close> is a HOL \<open>int\<close>: the encoders receive calendar fields below 1000, for
  which no intermediate value leaves the 32-bit range. C's \<^verbatim>\<open>%\<close> and \<^verbatim>\<open>/\<close> truncate
  towards zero (\<open>smod\<close>, \<open>sdiv\<close>), \<^verbatim>\<open>m >> 1\<close> is the arithmetic shift \<open>drop_bit 1 m\<close>, and
  storing an \<^verbatim>\<open>int\<close> into a \<^verbatim>\<open>char\<close> keeps its low 8 bits (\<open>word_of_int\<close>).
\<close>

type_synonym sgbuf = "8 word list"

text \<open>\<^verbatim>\<open>const char M = P0 = P1 = P2 = P3 = P4 = P5 = -1;\<close>\<close>

definition M :: "8 word" where
  "M = word_of_int (- 1)"

text \<open>
  \<^verbatim>\<open>while (decimal > 0) { digit = decimal % 10; bcd += digit * multiplier;
  multiplier *= 16; decimal /= 10; }\<close>
\<close>

function dec2BCD_loop :: "int \<Rightarrow> int \<Rightarrow> int \<Rightarrow> int" where
  "dec2BCD_loop decimal bcd multiplier =
     (if decimal > 0
      then dec2BCD_loop (decimal sdiv 10) (bcd + (decimal smod 10) * multiplier) (multiplier * 16)
      else bcd)"
  by pat_completeness auto
termination
  by (relation "measure (\<lambda>(decimal, bcd, multiplier). nat decimal)")
     (auto simp: signed_divide_int_def sgn_if)

declare dec2BCD_loop.simps [simp del]

definition dec2BCD :: "int \<Rightarrow> int" where
  "dec2BCD decimal = dec2BCD_loop decimal 0 1"

definition set_year :: "int \<Rightarrow> sgbuf \<Rightarrow> sgbuf" where
  "set_year n sg0 =
     (let m = dec2BCD n;
          sg = sg0[48 := word_of_int (m smod 2)]; m = drop_bit 1 m;
          sg = sg[47 := word_of_int (m smod 2)]; m = drop_bit 1 m;
          sg = sg[46 := word_of_int (m smod 2)]; m = drop_bit 1 m;
          sg = sg[45 := word_of_int (m smod 2)]; m = drop_bit 1 m;
          sg = sg[44 := word_of_int (m smod 2)]; m = drop_bit 1 m;
          sg = sg[43 := word_of_int (m smod 2)]; m = drop_bit 1 m;
          sg = sg[42 := word_of_int (m smod 2)]; m = drop_bit 1 m
      in sg[41 := word_of_int (m smod 2)])"

definition set_day :: "int \<Rightarrow> sgbuf \<Rightarrow> sgbuf" where
  "set_day n sg0 =
     (let m = dec2BCD n;
          sg = sg0[33 := word_of_int (m smod 2)]; m = drop_bit 1 m;
          sg = sg[32 := word_of_int (m smod 2)]; m = drop_bit 1 m;
          sg = sg[31 := word_of_int (m smod 2)]; m = drop_bit 1 m;
          sg = sg[30 := word_of_int (m smod 2)]; m = drop_bit 1 m;
          sg = sg[28 := word_of_int (m smod 2)]; m = drop_bit 1 m;
          sg = sg[27 := word_of_int (m smod 2)]; m = drop_bit 1 m;
          sg = sg[26 := word_of_int (m smod 2)]; m = drop_bit 1 m;
          sg = sg[25 := word_of_int (m smod 2)]; m = drop_bit 1 m;
          sg = sg[23 := word_of_int (m smod 2)]; m = drop_bit 1 m
      in sg[22 := word_of_int (m smod 2)])"

definition set_wday :: "int \<Rightarrow> sgbuf \<Rightarrow> sgbuf" where
  "set_wday m0 sg0 =
     (let sg = sg0[52 := word_of_int (m0 smod 2)]; m = drop_bit 1 m0;
          sg = sg[51 := word_of_int (m smod 2)]; m = drop_bit 1 m
      in sg[50 := word_of_int (m smod 2)])"

text \<open>
  \<^verbatim>\<open>char PA1 = sg[18] ^ sg[17] ^ sg[16] ^ sg[15] ^ sg[13] ^ sg[12]; sg[36] = PA1;\<close>
  The operands are promoted to \<^verbatim>\<open>int\<close> and the result is cut back to a \<^verbatim>\<open>char\<close>, which
  is the bitwise exclusive or of the bytes.
\<close>

definition set_hour :: "int \<Rightarrow> sgbuf \<Rightarrow> sgbuf" where
  "set_hour n sg0 =
     (let m = dec2BCD n;
          sg = sg0[18 := word_of_int (m smod 2)]; m = drop_bit 1 m;
          sg = sg[17 := word_of_int (m smod 2)]; m = drop_bit 1 m;
          sg = sg[16 := word_of_int (m smod 2)]; m = drop_bit 1 m;
          sg = sg[15 := word_of_int (m smod 2)]; m = drop_bit 1 m;
          sg = sg[13 := word_of_int (m smod 2)]; m = drop_bit 1 m;
          sg = sg[12 := word_of_int (m smod 2)];
          PA1 = sg ! 18 XOR sg ! 17 XOR sg ! 16 XOR sg ! 15 XOR sg ! 13 XOR sg ! 12
      in sg[36 := PA1])"

definition set_min :: "int \<Rightarrow> sgbuf \<Rightarrow> sgbuf" where
  "set_min n sg0 =
     (let m = dec2BCD n;
          sg = sg0[8 := word_of_int (m smod 2)]; m = drop_bit 1 m;
          sg = sg[7 := word_of_int (m smod 2)]; m = drop_bit 1 m;
          sg = sg[6 := word_of_int (m smod 2)]; m = drop_bit 1 m;
          sg = sg[5 := word_of_int (m smod 2)]; m = drop_bit 1 m;
          sg = sg[3 := word_of_int (m smod 2)]; m = drop_bit 1 m;
          sg = sg[2 := word_of_int (m smod 2)]; m = drop_bit 1 m;
          sg = sg[1 := word_of_int (m smod 2)];
          PA2 = sg ! 8 XOR sg ! 7 XOR sg ! 6 XOR sg ! 5 XOR sg ! 3 XOR sg ! 2 XOR sg ! 1
      in sg[37 := PA2])"

text \<open>
  \<^verbatim>\<open>set_fix\<close>: four chained assignments, the rightmost element written first.
\<close>

definition set_fix :: "sgbuf \<Rightarrow> sgbuf" where
  "set_fix sg =
     (let sg = sg[59 := M, 49 := M, 39 := M, 29 := M, 19 := M, 9 := M, 0 := M];
          sg = sg[58 := 0, 57 := 0, 56 := 0, 55 := 0, 35 := 0, 34 := 0, 24 := 0,
                  21 := 0, 20 := 0, 14 := 0, 11 := 0, 10 := 0, 4 := 0];
          sg = sg[40 := 0, 38 := 0]
      in sg[54 := 0, 53 := 0])"

subsection \<open>Reading the fields back\<close>

text \<open>
  The decoders read the slots a receiver reads, most significant bit first: minute tens
  in slots 1..3 and ones in 5..8, hour in 12..13 and 15..18, day of year in 22..23, 25..28
  and 30..33, year in 41..48 (two binary-coded decimal digits), weekday in 50..52 (binary).
\<close>

definition slot :: "sgbuf \<Rightarrow> nat \<Rightarrow> int" where
  "slot sg i = uint (sg ! i)"

definition decode_min :: "sgbuf \<Rightarrow> int" where
  "decode_min sg = 10 * (4 * slot sg 1 + 2 * slot sg 2 + slot sg 3)
                 + (8 * slot sg 5 + 4 * slot sg 6 + 2 * slot sg 7 + slot sg 8)"

definition decode_hour :: "sgbuf \<Rightarrow> int" where
  "decode_hour sg = 10 * (2 * slot sg 12 + slot sg 13)
                  + (8 * slot sg 15 + 4 * slot sg 16 + 2 * slot sg 17 + slot sg 18)"

definition decode_day :: "sgbuf \<Rightarrow> int" where
  "decode_day sg = 100 * (2 * slot sg 22 + slot sg 23)
                 + 10 * (8 * slot sg 25 + 4 * slot sg 26 + 2 * slot sg 27 + slot sg 28)
                 + (8 * slot sg 30 + 4 * slot sg 31 + 2 * slot sg 32 + slot sg 33)"

definition decode_year :: "sgbuf \<Rightarrow> int" where
  "decode_year sg = 10 * (8 * slot sg 41 + 4 * slot sg 42 + 2 * slot sg 43 + slot sg 44)
                  + (8 * slot sg 45 + 4 * slot sg 46 + 2 * slot sg 47 + slot sg 48)"

definition decode_wday :: "sgbuf \<Rightarrow> int" where
  "decode_wday sg = 4 * slot sg 50 + 2 * slot sg 51 + slot sg 52"

section \<open>Waveforms and the transmission loop\<close>

text \<open>
  The hardware is driven through \<^verbatim>\<open>ledcWrite(ledChannel, duty)\<close> and \<^verbatim>\<open>delay(ms)\<close>.
  A waveform is the list of these calls, in order.
\<close>

datatype hw_event = LedcWrite int int | Delay int

definition ledChannel :: int where
  "ledChannel = 0"

definition mark :: "hw_event list" where
  "mark = [LedcWrite ledChannel 127, Delay 200, LedcWrite ledChannel 0, Delay 800]"

definition zero :: "hw_event list" where
  "zero = [LedcWrite ledChannel 127, Delay 800, LedcWrite ledChannel 0, Delay 200]"

definition one :: "hw_event list" where
  "one = [LedcWrite ledChannel 127, Delay 500, LedcWrite ledChannel 0, Delay 500]"

text \<open>
  The envelope of a waveform: for every \<^verbatim>\<open>delay\<close>, whether the carrier is on (the last
  duty written is not 0) and for how many milliseconds.
\<close>

fun envelope :: "bool \<Rightarrow> hw_event list \<Rightarrow> (bool \<times> int) list" where
  "envelope on [] = []"
| "envelope on (LedcWrite ch duty # es) = envelope (duty \<noteq> 0) es"
| "envelope on (Delay ms # es) = (on, ms) # envelope on es"

definition duration :: "hw_event list \<Rightarrow> int" where
  "duration es = sum_list (map snd (envelope False es))"

text \<open>
  Whether plain \<^verbatim>\<open>char\<close> is signed is the compiler's choice, so it is a parameter:
  \<open>char_to_int\<close> is the integer promotion of a \<^verbatim>\<open>char\<close> in a comparison or a
  \<^verbatim>\<open>switch\<close>.
\<close>

definition char_to_int :: "bool \<Rightarrow> 8 word \<Rightarrow> int" where
  "char_to_int char_signed c = (if char_signed then sint c else uint c)"

text \<open>
  One iteration of the transmission loop on slot \<open>i\<close>: the safety check, then the
  \<^verbatim>\<open>switch\<close>, which has no \<^verbatim>\<open>default\<close> branch. The result is the buffer, the value the
  \<^verbatim>\<open>switch\<close> saw and the waveform played. Output on \<^verbatim>\<open>Serial\<close> is not modelled.
\<close>

definition send_slot :: "bool \<Rightarrow> sgbuf \<Rightarrow> nat \<Rightarrow> sgbuf \<times> int \<times> hw_event list" where
  "send_slot char_signed sg0 i =
     (let v0 = char_to_int char_signed (sg0 ! i);
          sg = (if v0 \<noteq> - 1 \<and> v0 \<noteq> 0 \<and> v0 \<noteq> 1 \<and> v0 \<noteq> 255 then sg0[i := 0] else sg0);
          v = char_to_int char_signed (sg ! i);
          wave = (if v = - 1 \<or> v = 255 then mark
                  else if v = 0 then zero
                  else if v = 1 then one
                  else [])
      in (sg, v, wave))"

datatype error = OutOfBounds int

text \<open>
  \<^verbatim>\<open>for (int i = se; i < 60 + sh && i < 62; ++i) { ... }\<close>
  An index outside the array is an error of the model. Each iteration contributes the
  index, the value dispatched and the waveform.
\<close>

type_synonym tx = "int \<times> int \<times> hw_event list"

function tx_loop :: "bool \<Rightarrow> int \<Rightarrow> int \<Rightarrow> sgbuf \<Rightarrow> error + (sgbuf \<times> tx list)" where
  "tx_loop char_signed i sh sg =
     (if i < 60 + sh \<and> i < 62 then
        (if 0 \<le> i \<and> nat i < length sg then
           (case send_slot char_signed sg (nat i) of
              (sg1, v, wave) \<Rightarrow>
                (case tx_loop char_signed (i + 1) sh sg1 of
                   Inl e \<Rightarrow> Inl e
                 | Inr (sg2, out) \<Rightarrow> Inr (sg2, (i, v, wave) # out)))
         else Inl (OutOfBounds i))
      else Inr (sg, []))"
  by pat_completeness auto
termination
  by (relation "measure (\<lambda>(char_signed, i, sh, sg). nat (62 - i))") auto

declare tx_loop.simps [simp del]

section \<open>Building and sending one frame\<close>

text \<open>
  \<^verbatim>\<open>struct tm\<close>, without \<^verbatim>\<open>tm_yday\<close> and \<^verbatim>\<open>tm_isdst\<close>: \<^verbatim>\<open>printAndSendJJY\<close> computes
  the day of the year itself before it reads it, and never reads the other.
\<close>

record tm =
  tm_sec :: int
  tm_min :: int
  tm_hour :: int
  tm_mday :: int
  tm_mon :: int
  tm_year :: int
  tm_wday :: int

definition daysInMonth :: "int list" where
  "daysInMonth = [31, 28, 31, 30, 31, 30, 31, 31, 30, 31, 30, 31]"

text \<open>\<^verbatim>\<open>for (int i = 0; i < timeInfo.tm_mon; ++i) timeInfo.tm_yday += daysInMonth[i];\<close>\<close>

function yday_loop :: "int \<Rightarrow> int \<Rightarrow> int \<Rightarrow> error + int" where
  "yday_loop i mon yday =
     (if i < mon then
        (if 0 \<le> i \<and> nat i < length daysInMonth
         then yday_loop (i + 1) mon (yday + daysInMonth ! nat i)
         else Inl (OutOfBounds i))
      else Inr yday)"
  by pat_completeness auto
termination
  by (relation "measure (\<lambda>(i, mon, yday). nat (12 - i))") (auto simp: daysInMonth_def)

declare yday_loop.simps [simp del]

definition compute_yday :: "tm \<Rightarrow> error + int" where
  "compute_yday timeInfo =
     (case yday_loop 0 (tm_mon timeInfo) (tm_mday timeInfo - 1) of
        Inl e \<Rightarrow> Inl e
      | Inr yday \<Rightarrow>
          (let year = tm_year timeInfo + 1900
           in if (year smod 4 = 0 \<and> year smod 100 \<noteq> 0) \<or> year smod 400 = 0
              then (if tm_mon timeInfo > 1 then Inr (yday + 1) else Inr yday)
              else Inr yday))"

text \<open>
  \<^verbatim>\<open>int se = timeInfo.tm_sec, sh = 0;
  if (se == 60) { sg[53] = LS1 = 1; sg[54] = LS2 = 0; se = 59; sh = 1; }
  else if (se == 61) { sg[53] = LS1 = 1; sg[54] = LS2 = 1; se = 58; sh = 2; }\<close>
  The globals \<^verbatim>\<open>LS1\<close> and \<^verbatim>\<open>LS2\<close> are written here and read nowhere.
\<close>

definition leap_adjust :: "int \<Rightarrow> sgbuf \<Rightarrow> sgbuf \<times> int \<times> int" where
  "leap_adjust sec sg =
     (if sec = 60 then (sg[53 := 1, 54 := 0], 59, 1)
      else if sec = 61 then (sg[53 := 1, 54 := 1], 58, 2)
      else (sg, sec, 0))"

text \<open>
  \<^verbatim>\<open>printAndSendJJY\<close> (ver. 0.11 and later; ver. 0.10 has the same statements inline in
  \<^verbatim>\<open>loop\<close>) in its two phases: \<open>build_frame\<close> is everything up to the \<^verbatim>\<open>for\<close> loop and
  yields the buffer, the first index \<open>se\<close> and the shift \<open>sh\<close>; the loop follows.
\<close>

definition build_frame :: "tm \<Rightarrow> sgbuf \<Rightarrow> error + (sgbuf \<times> int \<times> int)" where
  "build_frame timeInfo sg0 =
     (case compute_yday timeInfo of
        Inl e \<Rightarrow> Inl e
      | Inr yday \<Rightarrow>
          (let year = tm_year timeInfo + 1900
           in case leap_adjust (tm_sec timeInfo) sg0 of
                (sg, se, sh) \<Rightarrow>
                  (let sg = set_fix sg;
                       sg = set_min (tm_min timeInfo) sg;
                       sg = set_hour (tm_hour timeInfo) sg;
                       sg = set_day (yday + 1) sg;
                       sg = set_wday (tm_wday timeInfo) sg;
                       sg = set_year (year - 2000) sg
                   in Inr (sg, se, sh))))"

definition printAndSendJJY :: "bool \<Rightarrow> tm \<Rightarrow> sgbuf \<Rightarrow> error + (sgbuf \<times> tx list)" where
  "printAndSendJJY char_signed timeInfo sg0 =
     (case build_frame timeInfo sg0 of
        Inl e \<Rightarrow> Inl e
      | Inr (sg, se, sh) \<Rightarrow> tx_loop char_signed se sh sg)"

section \<open>The time source of \<^verbatim>\<open>loop\<close> (ver. 0.11 and 0.12)\<close>

text \<open>
  \<^verbatim>\<open>uint64_t ntpSyncedMicros\<close> and \<^verbatim>\<open>time_t ntpSyncedTime\<close> are the sync anchor. The width
  of \<^verbatim>\<open>time_t\<close> comes from the platform headers, so it is the type parameter \<open>'t\<close>.

  \<^verbatim>\<open>time_t currentSecond = ntpSyncedTime + ((nowMicros - ntpSyncedMicros) / 1000000ULL);\<close>
  The subtraction and the division are unsigned 64-bit; the signed \<^verbatim>\<open>time_t\<close> is converted
  to \<^verbatim>\<open>unsigned long long\<close> for the addition and the sum is converted back.
\<close>

definition currentSecond :: "'t::len word \<Rightarrow> 64 word \<Rightarrow> 64 word \<Rightarrow> 't word" where
  "currentSecond ntpSyncedTime ntpSyncedMicros nowMicros =
     ucast ((scast ntpSyncedTime :: 64 word) + (nowMicros - ntpSyncedMicros) div 1000000)"

text \<open>
  \<^verbatim>\<open>while (true) { uint64_t nowMicros = esp_timer_get_time();
  uint32_t offset = (nowMicros - ntpSyncedMicros) % 1000000UL;
  if (offset < 1000) break; delayMicroseconds(100); }\<close>
  The timer is the sequence of its readings; the loop yields the number of readings it
  has consumed, and has no value when no reading ever falls into the window.
\<close>

partial_function (option) wait_for_second :: "(nat \<Rightarrow> 64 word) \<Rightarrow> 64 word \<Rightarrow> nat \<Rightarrow> nat option" where
  "wait_for_second esp_timer_get_time ntpSyncedMicros k =
     (if (ucast ((esp_timer_get_time k - ntpSyncedMicros) mod 1000000) :: 32 word) < 1000
      then Some (Suc k)
      else wait_for_second esp_timer_get_time ntpSyncedMicros (Suc k))"

declare wait_for_second.simps [code]

text \<open>
  Ver. 0.12 writes the same wait without the intermediate \<^verbatim>\<open>uint32_t\<close>:
  \<^verbatim>\<open>while (true) { uint64_t nowMicros = esp_timer_get_time();
  if ((nowMicros - ntpSyncedMicros) % 1000000UL < 1000) break; delayMicroseconds(100); }\<close>
\<close>

partial_function (option) wait_for_second_0_12 :: "(nat \<Rightarrow> 64 word) \<Rightarrow> 64 word \<Rightarrow> nat \<Rightarrow> nat option" where
  "wait_for_second_0_12 esp_timer_get_time ntpSyncedMicros k =
     (if (esp_timer_get_time k - ntpSyncedMicros) mod 1000000 < 1000
      then Some (Suc k)
      else wait_for_second_0_12 esp_timer_get_time ntpSyncedMicros (Suc k))"

declare wait_for_second_0_12.simps [code]

text \<open>What \<^verbatim>\<open>rtc.GetDateTime()\<close> returns, with the answer of its \<^verbatim>\<open>IsValid()\<close>.\<close>

record RtcDateTime =
  Year :: int
  Month :: int
  Day :: int
  Hour :: int
  Minute :: int
  Second :: int
  DayOfWeek :: int
  IsValid :: bool

text \<open>A pass of \<^verbatim>\<open>loop\<close> either returns early (\<open>Skipped\<close>) or goes on with a value.\<close>

datatype 'a outcome = Skipped | Went 'a

text \<open>
  The first statement of \<^verbatim>\<open>loop\<close>: the \<^verbatim>\<open>if (ntpSyncedMicros > 0) ... else ...\<close> that fills
  \<^verbatim>\<open>timeInfo\<close>. \<^verbatim>\<open>localtime_r\<close> is the C library's and is a parameter.
\<close>

definition time_source ::
  "('t::len word \<Rightarrow> tm) \<Rightarrow> (nat \<Rightarrow> 64 word) \<Rightarrow> RtcDateTime \<Rightarrow> 64 word \<Rightarrow> 't word \<Rightarrow> tm outcome option" where
  "time_source localtime_r esp_timer_get_time rtc ntpSyncedMicros ntpSyncedTime =
     (if ntpSyncedMicros > 0 then
        (case wait_for_second esp_timer_get_time ntpSyncedMicros 0 of
           None \<Rightarrow> None
         | Some k \<Rightarrow>
             (let nowMicros = esp_timer_get_time k;
                  currentSecond = currentSecond ntpSyncedTime ntpSyncedMicros nowMicros
              in Some (Went (localtime_r currentSecond))))
      else
        (let now = rtc
         in if \<not> IsValid now then Some Skipped
            else Some (Went \<lparr>tm_sec = Second now, tm_min = Minute now, tm_hour = Hour now,
                             tm_mday = Day now, tm_mon = Month now - 1, tm_year = Year now - 1900,
                             tm_wday = DayOfWeek now\<rparr>)))"

text \<open>\<^verbatim>\<open>loop\<close> of ver. 0.11: the time source, then \<^verbatim>\<open>printAndSendJJY(timeInfo)\<close>.\<close>

definition loop ::
  "bool \<Rightarrow> ('t::len word \<Rightarrow> tm) \<Rightarrow> (nat \<Rightarrow> 64 word) \<Rightarrow> RtcDateTime \<Rightarrow> 64 word \<Rightarrow> 't word \<Rightarrow> sgbuf
     \<Rightarrow> (error + (sgbuf \<times> tx list)) outcome option" where
  "loop char_signed localtime_r esp_timer_get_time rtc ntpSyncedMicros ntpSyncedTime sg =
     (case time_source localtime_r esp_timer_get_time rtc ntpSyncedMicros ntpSyncedTime of
        None \<Rightarrow> None
      | Some Skipped \<Rightarrow> Some Skipped
      | Some (Went timeInfo) \<Rightarrow> Some (Went (printAndSendJJY char_signed timeInfo sg)))"

section \<open>Periodic resynchronisation (ver. 0.12)\<close>

text \<open>
  The globals \<^verbatim>\<open>resyncNTP\<close> writes, and what it asks of its surroundings in one call:
  \<^verbatim>\<open>WiFi.status() == WL_CONNECTED\<close>, the result of \<^verbatim>\<open>getLocalTime\<close>, \<^verbatim>\<open>time()\<close>,
  \<^verbatim>\<open>esp_timer_get_time()\<close> and, after the wait for the minute boundary, \<^verbatim>\<open>millis()\<close>.
\<close>

record (overloaded) ('t::len) sync_state =
  ntpSyncedMicros :: "64 word"
  ntpSyncedTime :: "'t word"
  lastSyncMillis :: "32 word"

record (overloaded) ('t::len) resync_env =
  wifi_connected :: bool
  getLocalTime :: "tm option"
  time_now :: "'t word"
  esp_timer_now :: "64 word"
  millis_now :: "32 word"

text \<open>
  \<^verbatim>\<open>resyncNTP\<close> yields the new globals and the time it writes to the RTC with
  \<^verbatim>\<open>rtc.SetDateTime\<close>, if it writes one.
\<close>

definition resyncNTP :: "'t::len resync_env \<Rightarrow> 't sync_state \<Rightarrow> 't sync_state \<times> tm option" where
  "resyncNTP env st =
     (if \<not> wifi_connected env then (st\<lparr>ntpSyncedMicros := 0\<rparr>, None)
      else (case getLocalTime env of
              Some timeInfo \<Rightarrow>
                (st\<lparr>ntpSyncedMicros := esp_timer_now env, ntpSyncedTime := time_now env,
                    lastSyncMillis := millis_now env\<rparr>, Some timeInfo)
            | None \<Rightarrow> (st\<lparr>ntpSyncedMicros := 0\<rparr>, None)))"

section \<open>A pass of \<^verbatim>\<open>loop\<close> in ver. 0.12\<close>

text \<open>
  The last statement of \<^verbatim>\<open>loop\<close>:
  \<^verbatim>\<open>if (millis() - lastSyncMillis > syncInterval || lastSyncMillis == 0) { resyncNTP(); }\<close>
  with \<^verbatim>\<open>unsigned long\<close> of 32 bits. \<^verbatim>\<open>millis\<close> is the reading of \<^verbatim>\<open>millis()\<close> in the
  condition.
\<close>

definition resync_check :: "32 word \<Rightarrow> 32 word \<Rightarrow> 't::len resync_env \<Rightarrow> 't sync_state \<Rightarrow> 't sync_state \<times> tm option" where
  "resync_check millis syncInterval env st =
     (if millis - lastSyncMillis st > syncInterval \<or> lastSyncMillis st = 0
      then resyncNTP env st
      else (st, None))"

text \<open>
  \<^verbatim>\<open>loop\<close> of ver. 0.12. Between the time source and \<^verbatim>\<open>printAndSendJJY(timeInfo)\<close> it
  runs \<^verbatim>\<open>time_t baseTime = mktime(&timeInfo);\<close> for the display. \<^verbatim>\<open>mktime\<close> is the C
  library's: it returns the calendar time and rewrites the \<^verbatim>\<open>struct tm\<close> it is given
  (fields brought into range, \<^verbatim>\<open>tm_wday\<close> and \<^verbatim>\<open>tm_yday\<close> set from the date), so what
  \<^verbatim>\<open>printAndSendJJY\<close> receives is the rewritten \<^verbatim>\<open>timeInfo\<close>. It is a parameter that
  yields both. In the RTC branch \<^verbatim>\<open>loop\<close> leaves \<^verbatim>\<open>tm_isdst\<close> unset, which \<^verbatim>\<open>mktime\<close>
  reads: the parameter stands for the library function at whatever that field holds.
  \<^verbatim>\<open>baseTime\<close>, \<^verbatim>\<open>taiwanTime\<close> and \<^verbatim>\<open>fixedTaiwanTime\<close> go to \<^verbatim>\<open>displayTimeOnLCD\<close> only, which
  writes to the display and to no variable of the sketch.

  The \<^verbatim>\<open>delay(5)\<close> after the transmission changes no variable.

  A pass yields what \<^verbatim>\<open>printAndSendJJY\<close> yields and, when that has stayed inside the
  array, the globals and the RTC write that the resync check at the end leaves.
\<close>

definition loop_0_12 ::
  "bool \<Rightarrow> ('t::len word \<Rightarrow> tm) \<Rightarrow> (tm \<Rightarrow> 't word \<times> tm) \<Rightarrow> (nat \<Rightarrow> 64 word) \<Rightarrow> RtcDateTime
     \<Rightarrow> 32 word \<Rightarrow> 32 word \<Rightarrow> 't resync_env \<Rightarrow> 't sync_state \<Rightarrow> sgbuf
     \<Rightarrow> (error + ((sgbuf \<times> tx list) \<times> 't sync_state \<times> tm option)) outcome option" where
  "loop_0_12 char_signed localtime_r mktime esp_timer_get_time rtc millis syncInterval env st sg =
     (case (if ntpSyncedMicros st > 0 then
              (case wait_for_second_0_12 esp_timer_get_time (ntpSyncedMicros st) 0 of
                 None \<Rightarrow> None
               | Some k \<Rightarrow>
                   (let nowMicros = esp_timer_get_time k;
                        currentSecond = currentSecond (ntpSyncedTime st) (ntpSyncedMicros st) nowMicros
                    in Some (Went (localtime_r currentSecond))))
            else
              (let now = rtc
               in if \<not> IsValid now then Some Skipped
                  else Some (Went \<lparr>tm_sec = Second now, tm_min = Minute now, tm_hour = Hour now,
                                   tm_mday = Day now, tm_mon = Month now - 1, tm_year = Year now - 1900,
                                   tm_wday = DayOfWeek now\<rparr>))) of
        None \<Rightarrow> None
      | Some Skipped \<Rightarrow> Some Skipped
      | Some (Went timeInfo0) \<Rightarrow>
          (let (baseTime, timeInfo) = mktime timeInfo0
           in case printAndSendJJY char_signed timeInfo sg of
                Inl e \<Rightarrow> Some (Went (Inl e))
              | Inr sent \<Rightarrow> Some (Went (Inr (sent, resync_check millis syncInterval env st)))))"

section \<open>The BPC frame (JJY/BPC sketch)\<close>

text \<open>
  \<^verbatim>\<open>int8_t *bits60\<close> points to the 60-element table of the station; \<^verbatim>\<open>nowtm\<close> is the
  current time. \<^verbatim>\<open>value & 3\<close> and \<^verbatim>\<open>value >>= 2\<close> act on an \<^verbatim>\<open>int\<close>.
\<close>

function quadize_loop :: "int \<Rightarrow> int \<Rightarrow> int \<Rightarrow> 8 word list \<Rightarrow> 8 word list" where
  "quadize_loop i pos v bits60 =
     (if i \<ge> pos
      then quadize_loop (i - 1) pos (drop_bit 2 v) (bits60[nat i := word_of_int (v AND 3)])
      else bits60)"
  by pat_completeness auto
termination
  by (relation "measure (\<lambda>(i, pos, v, bits60). nat (i + 1 - pos))") auto

declare quadize_loop.simps [simp del]

definition quadize :: "int \<Rightarrow> int \<Rightarrow> int \<Rightarrow> 8 word list \<Rightarrow> 8 word list" where
  "quadize v pos len bits60 = quadize_loop (pos + len - 1) pos v bits60"

function qparity_loop :: "int \<Rightarrow> int \<Rightarrow> int \<Rightarrow> 8 word list \<Rightarrow> int" where
  "qparity_loop i lim sum_acc bits60 =
     (if i < lim
      then qparity_loop (i + 1) lim
             (sum_acc + ((sint (bits60 ! nat i) AND 1) + drop_bit 1 (sint (bits60 ! nat i) AND 2))) bits60
      else sum_acc)"
  by pat_completeness auto
termination
  by (relation "measure (\<lambda>(i, lim, sum_acc, bits60). nat (lim - i))") auto

declare qparity_loop.simps [simp del]

definition qparity :: "int \<Rightarrow> int \<Rightarrow> 8 word list \<Rightarrow> int" where
  "qparity pos len bits60 = qparity_loop pos (pos + len) 0 bits60 smod 2"

text \<open>
  \<^verbatim>\<open>for (int i = 2; i < 20; i++) { bits60[20 + i] = bits60[i]; bits60[40 + i] = bits60[i]; }\<close>
\<close>

function copy_loop :: "nat \<Rightarrow> 8 word list \<Rightarrow> 8 word list" where
  "copy_loop i bits60 =
     (if i < 20
      then copy_loop (i + 1)
             (let b = bits60[20 + i := bits60 ! i] in b[40 + i := b ! i])
      else bits60)"
  by pat_completeness auto
termination
  by (relation "measure (\<lambda>(i, bits60). 20 - i)") auto

declare copy_loop.simps [simp del]

text \<open>
  \<^verbatim>\<open>mb_bpc\<close> in its two phases: \<open>mb_bpc_fields\<close> is every statement before the \<^verbatim>\<open>for\<close> loop
  (the digits of the time and the two parity slots 10 and 19), the loop follows.
\<close>

definition mb_bpc_fields :: "tm \<Rightarrow> 8 word list \<Rightarrow> 8 word list" where
  "mb_bpc_fields nowtm bits60 =
     (let b = quadize (tm_hour nowtm smod 12) 3 2 bits60;
          b = quadize (tm_min nowtm) 5 3 b;
          b = quadize (tm_wday nowtm) 8 2 b;
          b = b[10 := word_of_int ((if tm_hour nowtm \<ge> 12 then 2 else 0) + qparity 3 7 b)];
          b = quadize (tm_mday nowtm) 11 3 b;
          b = quadize (tm_mon nowtm + 1) 14 2 b;
          b = quadize (tm_year nowtm smod 100) 16 3 b
      in b[19 := word_of_int (qparity 11 8 b)])"

definition mb_bpc :: "tm \<Rightarrow> 8 word list \<Rightarrow> 8 word list" where
  "mb_bpc nowtm bits60 = copy_loop 2 (mb_bpc_fields nowtm bits60)"

text \<open>The tables of the sub-second patterns, ten entries for each symbol.\<close>

definition sp_jjy :: "8 word list" where
  "sp_jjy =
    [1, 1, 1, 1, 1, 1, 1, 1, 0, 0,
     1, 1, 1, 1, 1, 0, 0, 0, 0, 0,
     1, 1, 0, 0, 0, 0, 0, 0, 0, 0]"

definition sp_bpc :: "8 word list" where
  "sp_bpc =
    [0, 1, 1, 1, 1, 1, 1, 1, 1, 1,
     0, 0, 1, 1, 1, 1, 1, 1, 1, 1,
     0, 0, 0, 1, 1, 1, 1, 1, 1, 1,
     0, 0, 0, 0, 1, 1, 1, 1, 1, 1,
     0, 0, 0, 0, 0, 0, 0, 0, 0, 0]"

text \<open>
  \<^verbatim>\<open>ampmod = secpattern[symbol * 10 + tssec];\<close> in \<^verbatim>\<open>ampchange\<close>, where \<^verbatim>\<open>loop\<close> keeps
  \<^verbatim>\<open>tssec\<close> in 0..9. The steps of a symbol are the entries it can select.
\<close>

definition ampmod :: "8 word list \<Rightarrow> nat \<Rightarrow> nat \<Rightarrow> 8 word" where
  "ampmod secpattern symbol tssec = secpattern ! (symbol * 10 + tssec)"

definition steps_of :: "8 word list \<Rightarrow> nat \<Rightarrow> 8 word list" where
  "steps_of secpattern symbol =
     map (ampmod secpattern symbol) (filter (\<lambda>tssec. symbol * 10 + tssec < length secpattern) [0..<10])"

section \<open>The clock below the second (JJY/BPC sketch)\<close>

text \<open>
  The globals that count time below the second:
  \<^verbatim>\<open>int tm0cycle = 1000; int radiodiv = 80; int radioc = 0; volatile uint32_t buzzup = 0;
  int ampc = 0; int tssec = 0;\<close> and the binary semaphore \<^verbatim>\<open>timerSemaphore\<close>, which is
  either given or not.
\<close>

record timer_state =
  tm0cycle :: int
  radiodiv :: int
  radioc :: int
  buzzup :: "32 word"
  timerSemaphore :: bool
  ampc :: int
  tssec :: int

text \<open>\<^verbatim>\<open>#define AMPDIV 10\<close>\<close>

definition AMPDIV :: int where
  "AMPDIV = 10"

text \<open>
  \<^verbatim>\<open>setstation\<close>, the part that sets the timing:
  \<^verbatim>\<open>if (station == 1) { tm0cycle = 80000 / 137; radiodiv = 137; }
  else { tm0cycle = 80000 / 80; radiodiv = 80; }\<close>
  Its other assignments select the tables \<^verbatim>\<open>bits60\<close> and \<^verbatim>\<open>secpattern\<close> and the encoder.
\<close>

definition setstation :: "int \<Rightarrow> timer_state \<Rightarrow> timer_state" where
  "setstation station s =
     (if station = 1 then s\<lparr>tm0cycle := 80000 sdiv 137, radiodiv := 137\<rparr>
      else s\<lparr>tm0cycle := 80000 sdiv 80, radiodiv := 80\<rparr>)"

text \<open>
  \<^verbatim>\<open>starttimer\<close>: \<^verbatim>\<open>ampc = 0; radioc = 0; timerSemaphore = xSemaphoreCreateBinary();\<close>, a
  semaphore that is created empty. Then
  \<^verbatim>\<open>tm0 = timerBegin(0, tm0cycle, true); timerAlarmWrite(tm0, 1, true);\<close> program the
  hardware: the timer counts its input clock divided by \<^verbatim>\<open>tm0cycle\<close> and raises the
  interrupt \<^verbatim>\<open>onTimer\<close> at every count, so that two consecutive interrupts are
  \<^verbatim>\<open>tm0cycle\<close> cycles of the input clock apart.
\<close>

definition starttimer :: "timer_state \<Rightarrow> timer_state" where
  "starttimer s = s\<lparr>ampc := 0, radioc := 0, timerSemaphore := False\<rparr>"

text \<open>
  \<^verbatim>\<open>onTimer\<close>, after it has toggled the output pin:
  \<^verbatim>\<open>radioc++; if (radioc >= radiodiv) { radioc = 0; buzzup++;
  xSemaphoreGiveFromISR(timerSemaphore, NULL); }\<close>
\<close>

definition onTimer :: "timer_state \<Rightarrow> timer_state" where
  "onTimer s0 =
     (let s = s0\<lparr>radioc := radioc s0 + 1\<rparr>
      in if radioc s \<ge> radiodiv s
         then s\<lparr>radioc := 0, buzzup := buzzup s + 1, timerSemaphore := True\<rparr>
         else s)"

text \<open>
  What a pass of \<^verbatim>\<open>loop\<close> does to the counters:
  \<^verbatim>\<open>if (!rtcValid) { ...; return; }
  int buzzup2 = 0;
  if (xSemaphoreTake(timerSemaphore, 0) == pdTRUE) { if (buzzup > 0) { buzzup2 = buzzup; buzzup = 0; } }
  if (buzzup2 > 0) { ampc++; if (ampc >= AMPDIV) { ampc = 0; tssec++;
      if (tssec >= 10) { tssec = 0; ... } } ampchange(); }\<close>
  The statements left out under \<^verbatim>\<open>tssec = 0\<close> advance the second and rebuild the frame;
  they and \<^verbatim>\<open>ampchange\<close> write none of the counters. \<^verbatim>\<open>ampchange\<close> selects the entry
  \<^verbatim>\<open>secpattern[symbol * 10 + tssec]\<close>, so an entry of a pattern is on the output for as
  long as \<^verbatim>\<open>tssec\<close> keeps its value.
\<close>

definition loop_counters :: "bool \<Rightarrow> timer_state \<Rightarrow> timer_state" where
  "loop_counters rtcValid s0 =
     (if \<not> rtcValid then s0
      else
        (let (buzzup2, s) =
               (if timerSemaphore s0
                then (if buzzup s0 > 0
                      then (sint (buzzup s0), s0\<lparr>timerSemaphore := False, buzzup := 0\<rparr>)
                      else (0, s0\<lparr>timerSemaphore := False\<rparr>))
                else (0, s0))
         in if buzzup2 > 0 then
              (let s = s\<lparr>ampc := ampc s + 1\<rparr>
               in if ampc s \<ge> AMPDIV then
                    (let s = s\<lparr>ampc := 0, tssec := tssec s + 1\<rparr>
                     in if tssec s \<ge> 10 then s\<lparr>tssec := 0\<rparr> else s)
                  else s)
            else s))"

section \<open>Auxiliary definitions for the proofs\<close>

text \<open>
  \<open>put_bits\<close> is the common shape of the encoders (store the low bit, shift, next slot),
  \<open>xor_slots\<close> the shape of their parity expressions, and \<open>bitval m k\<close> the \<open>k\<close>-th
  binary digit of \<open>m\<close>.
\<close>

fun put_bits :: "nat list \<Rightarrow> int \<Rightarrow> sgbuf \<Rightarrow> sgbuf" where
  "put_bits [] m sg = sg"
| "put_bits [i] m sg = sg[i := word_of_int (m smod 2)]"
| "put_bits (i # j # is) m sg = put_bits (j # is) (drop_bit 1 m) (sg[i := word_of_int (m smod 2)])"

fun xor_slots :: "sgbuf \<Rightarrow> nat list \<Rightarrow> 8 word" where
  "xor_slots sg [] = 0"
| "xor_slots sg [i] = sg ! i"
| "xor_slots sg (i # j # is) = sg ! i XOR xor_slots sg (j # is)"

declare put_bits.simps [simp del] xor_slots.simps [simp del]

definition bitval :: "int \<Rightarrow> nat \<Rightarrow> int" where
  "bitval m k = m div 2 ^ k mod 2"

text \<open>
  The pair of leap-second flag slots, and a leap second to run the sketch on: 08:59:60 on
  1 January 2017, a Sunday, Japan standard time.
\<close>

definition tm_leap60 :: tm where
  "tm_leap60 = \<lparr>tm_sec = 60, tm_min = 59, tm_hour = 8, tm_mday = 1, tm_mon = 0, tm_year = 117, tm_wday = 0\<rparr>"

definition leap_flags :: "sgbuf \<Rightarrow> 8 word \<times> 8 word" where
  "leap_flags sg = (sg ! 53, sg ! 54)"

text \<open>The table \<^verbatim>\<open>bits_bpc\<close> that \<^verbatim>\<open>bits60\<close> points to in BPC mode, as initialised.\<close>

definition bits_bpc :: "8 word list" where
  "bits_bpc =
    [4, 0, 0, 0, 0, 0, 0, 0, 0, 0,
     0, 0, 0, 0, 0, 0, 0, 0, 0, 0,
     4, 1, 0, 0, 0, 0, 0, 0, 0, 0,
     0, 0, 0, 0, 0, 0, 0, 0, 0, 0,
     4, 2, 0, 0, 0, 0, 0, 0, 0, 0,
     0, 0, 0, 0, 0, 0, 0, 0, 0, 0]"

text \<open>A time to build a BPC frame for: 15:34:00 on Saturday, 21 June 2025.\<close>

definition tm_153421 :: tm where
  "tm_153421 = \<lparr>tm_sec = 0, tm_min = 34, tm_hour = 15, tm_mday = 21, tm_mon = 5, tm_year = 125, tm_wday = 6\<rparr>"

text \<open>
  Concrete surroundings to run the sketches on: a platform with a 32-bit \<^verbatim>\<open>time_t\<close>, an
  anchor taken 5 s after boot, a timer that is read once every second after it, a
  \<^verbatim>\<open>localtime_r\<close> that answers 12:34:58, a running RTC and a dead one, and a resync attempt
  without WiFi.
\<close>

definition anchored :: "32 sync_state" where
  "anchored = \<lparr>ntpSyncedMicros = 5000000, ntpSyncedTime = 1700000000, lastSyncMillis = 0\<rparr>"

definition no_wifi :: "32 resync_env" where
  "no_wifi = \<lparr>wifi_connected = False, getLocalTime = None, time_now = 1700021600,
               esp_timer_now = 21605000000, millis_now = 21605000\<rparr>"

definition timer_every_second :: "nat \<Rightarrow> 64 word" where
  "timer_every_second k = 5000000 + 1000000 * of_nat (Suc k)"

definition localtime_123458 :: "32 word \<Rightarrow> tm" where
  "localtime_123458 t = \<lparr>tm_sec = 58, tm_min = 34, tm_hour = 12, tm_mday = 15, tm_mon = 10, tm_year = 123, tm_wday = 3\<rparr>"

definition rtc_running :: RtcDateTime where
  "rtc_running = \<lparr>Year = 2023, Month = 11, Day = 15, Hour = 12, Minute = 34, Second = 58, DayOfWeek = 3, IsValid = True\<rparr>"

definition rtc_dead :: RtcDateTime where
  "rtc_dead = \<lparr>Year = 2000, Month = 0, Day = 0, Hour = 0, Minute = 0, Second = 0, DayOfWeek = 0, IsValid = False\<rparr>"

text \<open>
  The \<^verbatim>\<open>struct tm\<close> that the RTC branch of \<^verbatim>\<open>loop\<close> fills, and a \<^verbatim>\<open>mktime\<close> to run
  ver. 0.12 on: it finds every field in range and leaves them as they are.
\<close>

definition tm_of_rtc :: "RtcDateTime \<Rightarrow> tm" where
  "tm_of_rtc now = \<lparr>tm_sec = Second now, tm_min = Minute now, tm_hour = Hour now, tm_mday = Day now,
                     tm_mon = Month now - 1, tm_year = Year now - 1900, tm_wday = DayOfWeek now\<rparr>"

definition mktime_in_range :: "tm \<Rightarrow> 32 word \<times> tm" where
  "mktime_in_range timeInfo = (1700051698, timeInfo)"

text \<open>
  The station numbers (\<^verbatim>\<open>#define SN_JJY_E 0\<close>, \<^verbatim>\<open>#define SN_BPC 1\<close>), the counters as the
  sketch initialises them, and the schedule on which they are run: every timer interrupt
  is followed by a pass of \<^verbatim>\<open>loop\<close>, so that no given semaphore is missed.
  \<open>interrupts_to_step\<close> counts the interrupts until \<^verbatim>\<open>tssec\<close> changes, that is until the
  next entry of the pattern is selected; \<open>step_micros\<close> is the time these interrupts take
  in microseconds, \<^verbatim>\<open>tm0cycle\<close> cycles each, for a timer input clock of \<open>clock_mhz\<close> MHz.
\<close>

definition SN_JJY_E :: int where
  "SN_JJY_E = 0"

definition SN_BPC :: int where
  "SN_BPC = 1"

definition globals_at_boot :: timer_state where
  "globals_at_boot = \<lparr>tm0cycle = 1000, radiodiv = 80, radioc = 0, buzzup = 0,
                       timerSemaphore = False, ampc = 0, tssec = 0\<rparr>"

definition tick :: "timer_state \<Rightarrow> timer_state" where
  "tick s = loop_counters True (onTimer s)"

fun interrupts_to_step :: "nat \<Rightarrow> timer_state \<Rightarrow> nat option" where
  "interrupts_to_step 0 s = None"
| "interrupts_to_step (Suc fuel) s =
     (let s' = tick s
      in if tssec s' \<noteq> tssec s then Some 1 else map_option Suc (interrupts_to_step fuel s'))"

definition step_micros :: "int \<Rightarrow> nat \<Rightarrow> timer_state \<Rightarrow> int option" where
  "step_micros clock_mhz fuel s =
     map_option (\<lambda>n. (int n * tm0cycle s) div clock_mhz) (interrupts_to_step fuel s)"

text \<open>
  The counters between two steps: no interrupt counted yet, nothing pending for \<^verbatim>\<open>loop\<close>.
\<close>

definition at_rest :: "timer_state \<Rightarrow> bool" where
  "at_rest s = (radioc s = 0 \<and> buzzup s = 0 \<and> \<not> timerSemaphore s \<and> 0 < radiodiv s)"

section \<open>The encoders write the digits they are given\<close>

lemma dec2BCD_loop_0: "d \<le> 0 \<Longrightarrow> dec2BCD_loop d b m = b"
  by (subst dec2BCD_loop.simps) simp

lemma dec2BCD_loop_pos: "0 < d \<Longrightarrow> dec2BCD_loop d b m = dec2BCD_loop (d div 10) (b + (d mod 10) * m) (m * 16)"
  by (subst dec2BCD_loop.simps) (simp add: signed_divide_int_def signed_modulo_int_def sgn_if)

lemma dec2BCD_small:
  assumes "0 \<le> n" "n < 1000"
  shows "dec2BCD n = (n div 100) * 256 + (n div 10 mod 10) * 16 + n mod 10"
proof -
  consider "n = 0" | "0 < n" "n < 10" | "10 \<le> n" "n < 100" | "100 \<le> n" using assms by linarith
  then show ?thesis
  proof cases
    case 1 then show ?thesis by (simp add: dec2BCD_def dec2BCD_loop_0)
  next
    case 2
    then have "n div 10 = 0" by simp
    with 2 show ?thesis by (simp add: dec2BCD_def dec2BCD_loop_pos dec2BCD_loop_0)
  next
    case 3
    then have a: "0 < n div 10" "n div 10 div 10 = 0" "n div 100 = 0" "n div 10 < 10" by auto
    with 3 show ?thesis by (simp add: dec2BCD_def dec2BCD_loop_pos dec2BCD_loop_0)
  next
    case 4
    with assms have a: "0 < n" "0 < n div 10" "0 < n div 10 div 10" "n div 10 div 10 div 10 = 0" "n div 10 div 10 = n div 100" by auto
    then show ?thesis by (simp add: dec2BCD_def dec2BCD_loop_pos dec2BCD_loop_0)
  qed
qed

lemma set_min_put: "set_min n sg =
   (let sg' = put_bits [8,7,6,5,3,2,1] (dec2BCD n) sg in sg'[37 := xor_slots sg' [8,7,6,5,3,2,1]])"
  by (simp only: set_min_def Let_def put_bits.simps xor_slots.simps)

lemma set_hour_put: "set_hour n sg =
   (let sg' = put_bits [18,17,16,15,13,12] (dec2BCD n) sg in sg'[36 := xor_slots sg' [18,17,16,15,13,12]])"
  by (simp only: set_hour_def Let_def put_bits.simps xor_slots.simps)

lemma set_day_put: "set_day n sg = put_bits [33,32,31,30,28,27,26,25,23,22] (dec2BCD n) sg"
  by (simp only: set_day_def Let_def put_bits.simps)

lemma set_year_put: "set_year n sg = put_bits [48,47,46,45,44,43,42,41] (dec2BCD n) sg"
  by (simp only: set_year_def Let_def put_bits.simps)

lemma set_wday_put: "set_wday n sg = put_bits [52,51,50] n sg"
  by (simp only: set_wday_def Let_def put_bits.simps)

lemma put_bits_Cons: "put_bits (i # is) m sg = put_bits is (drop_bit 1 m) (sg[i := word_of_int (m smod 2)])"
  by (cases "is") (simp_all add: put_bits.simps)

lemma put_bits_length [simp]: "length (put_bits is m sg) = length sg"
  by (induction "is" arbitrary: m sg) (auto simp: put_bits_Cons put_bits.simps(1))

lemma put_bits_other: "i \<notin> set is \<Longrightarrow> put_bits is m sg ! i = sg ! i"
  by (induction "is" arbitrary: m sg) (auto simp: put_bits_Cons put_bits.simps(1))

lemma put_bits_nth: "distinct is \<Longrightarrow> k < length is \<Longrightarrow> is ! k < length sg \<Longrightarrow>
    put_bits is m sg ! (is ! k) = word_of_int (drop_bit k m smod 2)"
proof (induction "is" arbitrary: m sg k)
  case Nil then show ?case by simp
next
  case (Cons i "is")
  show ?case
  proof (cases k)
    case 0
    with Cons.prems show ?thesis by (simp add: put_bits_other put_bits_Cons)
  next
    case (Suc k')
    with Cons.prems have "put_bits is (drop_bit 1 m) (sg[i := word_of_int (m smod 2)]) ! (is ! k') = word_of_int (drop_bit k' (drop_bit 1 m) smod 2)"
      by (intro Cons.IH) auto
    with Suc show ?thesis by (simp add: put_bits_Cons)
  qed
qed

lemma uint_stored_bit: "0 \<le> m \<Longrightarrow> uint (word_of_int (drop_bit k m smod 2) :: 8 word) = bitval m k"
proof -
  assume m: "0 \<le> m"
  have "0 \<le> m div 2 ^ k" using m by (simp add: pos_imp_zdiv_nonneg_iff)
  then have "(m div 2 ^ k) smod 2 = (m div 2 ^ k) mod 2"
    by (auto simp: signed_modulo_int_def sgn_if)
  moreover have "uint (word_of_int ((m div 2 ^ k) mod 2) :: 8 word) = (m div 2 ^ k) mod 2"
    by (simp add: uint_word_of_int take_bit_eq_mod)
  ultimately show ?thesis by (simp add: drop_bit_eq_div bitval_def)
qed

lemma put_bits_slot:
  "distinct is \<Longrightarrow> k < length is \<Longrightarrow> is ! k < length sg \<Longrightarrow> 0 \<le> m \<Longrightarrow>
   slot (put_bits is m sg) (is ! k) = bitval m k"
  by (simp add: slot_def put_bits_nth uint_stored_bit)

lemma set_min_slots:
  assumes "length sg = 62" "0 \<le> dec2BCD n"
  shows "slot (set_min n sg) 8 = bitval (dec2BCD n) 0"
    and "slot (set_min n sg) 7 = bitval (dec2BCD n) 1"
    and "slot (set_min n sg) 6 = bitval (dec2BCD n) 2"
    and "slot (set_min n sg) 5 = bitval (dec2BCD n) 3"
    and "slot (set_min n sg) 3 = bitval (dec2BCD n) 4"
    and "slot (set_min n sg) 2 = bitval (dec2BCD n) 5"
    and "slot (set_min n sg) 1 = bitval (dec2BCD n) 6"
  using assms
    put_bits_slot [of "[8,7,6,5,3,2,1]" 0 sg "dec2BCD n"]
    put_bits_slot [of "[8,7,6,5,3,2,1]" 1 sg "dec2BCD n"]
    put_bits_slot [of "[8,7,6,5,3,2,1]" 2 sg "dec2BCD n"]
    put_bits_slot [of "[8,7,6,5,3,2,1]" 3 sg "dec2BCD n"]
    put_bits_slot [of "[8,7,6,5,3,2,1]" 4 sg "dec2BCD n"]
    put_bits_slot [of "[8,7,6,5,3,2,1]" 5 sg "dec2BCD n"]
    put_bits_slot [of "[8,7,6,5,3,2,1]" 6 sg "dec2BCD n"]
  by (simp_all add: set_min_put Let_def slot_def)

lemma set_hour_slots:
  assumes "length sg = 62" "0 \<le> dec2BCD n"
  shows "slot (set_hour n sg) 18 = bitval (dec2BCD n) 0"
    and "slot (set_hour n sg) 17 = bitval (dec2BCD n) 1"
    and "slot (set_hour n sg) 16 = bitval (dec2BCD n) 2"
    and "slot (set_hour n sg) 15 = bitval (dec2BCD n) 3"
    and "slot (set_hour n sg) 13 = bitval (dec2BCD n) 4"
    and "slot (set_hour n sg) 12 = bitval (dec2BCD n) 5"
  using assms
    put_bits_slot [of "[18,17,16,15,13,12]" 0 sg "dec2BCD n"]
    put_bits_slot [of "[18,17,16,15,13,12]" 1 sg "dec2BCD n"]
    put_bits_slot [of "[18,17,16,15,13,12]" 2 sg "dec2BCD n"]
    put_bits_slot [of "[18,17,16,15,13,12]" 3 sg "dec2BCD n"]
    put_bits_slot [of "[18,17,16,15,13,12]" 4 sg "dec2BCD n"]
    put_bits_slot [of "[18,17,16,15,13,12]" 5 sg "dec2BCD n"]
  by (simp_all add: set_hour_put Let_def slot_def)

lemma set_day_slots:
  assumes "length sg = 62" "0 \<le> dec2BCD n"
  shows "slot (set_day n sg) 33 = bitval (dec2BCD n) 0"
    and "slot (set_day n sg) 32 = bitval (dec2BCD n) 1"
    and "slot (set_day n sg) 31 = bitval (dec2BCD n) 2"
    and "slot (set_day n sg) 30 = bitval (dec2BCD n) 3"
    and "slot (set_day n sg) 28 = bitval (dec2BCD n) 4"
    and "slot (set_day n sg) 27 = bitval (dec2BCD n) 5"
    and "slot (set_day n sg) 26 = bitval (dec2BCD n) 6"
    and "slot (set_day n sg) 25 = bitval (dec2BCD n) 7"
    and "slot (set_day n sg) 23 = bitval (dec2BCD n) 8"
    and "slot (set_day n sg) 22 = bitval (dec2BCD n) 9"
  using assms
    put_bits_slot [of "[33,32,31,30,28,27,26,25,23,22]" 0 sg "dec2BCD n"]
    put_bits_slot [of "[33,32,31,30,28,27,26,25,23,22]" 1 sg "dec2BCD n"]
    put_bits_slot [of "[33,32,31,30,28,27,26,25,23,22]" 2 sg "dec2BCD n"]
    put_bits_slot [of "[33,32,31,30,28,27,26,25,23,22]" 3 sg "dec2BCD n"]
    put_bits_slot [of "[33,32,31,30,28,27,26,25,23,22]" 4 sg "dec2BCD n"]
    put_bits_slot [of "[33,32,31,30,28,27,26,25,23,22]" 5 sg "dec2BCD n"]
    put_bits_slot [of "[33,32,31,30,28,27,26,25,23,22]" 6 sg "dec2BCD n"]
    put_bits_slot [of "[33,32,31,30,28,27,26,25,23,22]" 7 sg "dec2BCD n"]
    put_bits_slot [of "[33,32,31,30,28,27,26,25,23,22]" 8 sg "dec2BCD n"]
    put_bits_slot [of "[33,32,31,30,28,27,26,25,23,22]" 9 sg "dec2BCD n"]
  by (simp_all add: set_day_put)

lemma set_year_slots:
  assumes "length sg = 62" "0 \<le> dec2BCD n"
  shows "slot (set_year n sg) 48 = bitval (dec2BCD n) 0"
    and "slot (set_year n sg) 47 = bitval (dec2BCD n) 1"
    and "slot (set_year n sg) 46 = bitval (dec2BCD n) 2"
    and "slot (set_year n sg) 45 = bitval (dec2BCD n) 3"
    and "slot (set_year n sg) 44 = bitval (dec2BCD n) 4"
    and "slot (set_year n sg) 43 = bitval (dec2BCD n) 5"
    and "slot (set_year n sg) 42 = bitval (dec2BCD n) 6"
    and "slot (set_year n sg) 41 = bitval (dec2BCD n) 7"
  using assms
    put_bits_slot [of "[48,47,46,45,44,43,42,41]" 0 sg "dec2BCD n"]
    put_bits_slot [of "[48,47,46,45,44,43,42,41]" 1 sg "dec2BCD n"]
    put_bits_slot [of "[48,47,46,45,44,43,42,41]" 2 sg "dec2BCD n"]
    put_bits_slot [of "[48,47,46,45,44,43,42,41]" 3 sg "dec2BCD n"]
    put_bits_slot [of "[48,47,46,45,44,43,42,41]" 4 sg "dec2BCD n"]
    put_bits_slot [of "[48,47,46,45,44,43,42,41]" 5 sg "dec2BCD n"]
    put_bits_slot [of "[48,47,46,45,44,43,42,41]" 6 sg "dec2BCD n"]
    put_bits_slot [of "[48,47,46,45,44,43,42,41]" 7 sg "dec2BCD n"]
  by (simp_all add: set_year_put)

lemma set_wday_slots:
  assumes "length sg = 62" "0 \<le> n"
  shows "slot (set_wday n sg) 52 = bitval n 0"
    and "slot (set_wday n sg) 51 = bitval n 1"
    and "slot (set_wday n sg) 50 = bitval n 2"
  using assms
    put_bits_slot [of "[52,51,50]" 0 sg n]
    put_bits_slot [of "[52,51,50]" 1 sg n]
    put_bits_slot [of "[52,51,50]" 2 sg n]
  by (simp_all add: set_wday_put)

lemma set_length [simp]:
  "length (set_min n sg) = length sg" "length (set_hour n sg) = length sg"
  "length (set_day n sg) = length sg" "length (set_year n sg) = length sg"
  "length (set_wday n sg) = length sg"
  by (simp_all add: set_min_put set_hour_put set_day_put set_year_put set_wday_put Let_def)

lemma set_min_frame: "i \<notin> set [8,7,6,5,3,2,1,37] \<Longrightarrow> set_min n sg ! i = sg ! i"
  by (simp add: set_min_put Let_def put_bits_other)

lemma set_hour_frame: "i \<notin> set [18,17,16,15,13,12,36] \<Longrightarrow> set_hour n sg ! i = sg ! i"
  by (simp add: set_hour_put Let_def put_bits_other)

lemma set_day_frame: "i \<notin> set [33,32,31,30,28,27,26,25,23,22] \<Longrightarrow> set_day n sg ! i = sg ! i"
  by (simp add: set_day_put put_bits_other)

lemma set_year_frame: "i \<notin> set [48,47,46,45,44,43,42,41] \<Longrightarrow> set_year n sg ! i = sg ! i"
  by (simp add: set_year_put put_bits_other)

lemma set_wday_frame: "i \<notin> set [52,51,50] \<Longrightarrow> set_wday n sg ! i = sg ! i"
  by (simp add: set_wday_put put_bits_other)

lemma low4: "8 * ((v::int) div 8 mod 2) + 4 * (v div 4 mod 2) + 2 * (v div 2 mod 2) + v mod 2 = v mod 16"
proof -
  have a: "v mod 16 = 2 * (v div 2 mod 8) + v mod 2"
    using zmod_zmult2_eq [of 8 v 2] by simp
  have d4: "v div 2 div 2 = v div 4"
    using zdiv_zmult2_eq [of 2 v 2] by simp
  have d8: "v div 4 div 2 = v div 8"
    using zdiv_zmult2_eq [of 2 v 4] by simp
  have b: "v div 2 mod 8 = 2 * (v div 4 mod 4) + v div 2 mod 2"
    using zmod_zmult2_eq [of 4 "v div 2" 2] by (simp add: d4)
  have c: "v div 4 mod 4 = 2 * (v div 8 mod 2) + v div 4 mod 2"
    using zmod_zmult2_eq [of 2 "v div 4" 2] by (simp add: d8)
  show ?thesis unfolding a b c by simp
qed

lemma low3: "4 * ((v::int) div 4 mod 2) + 2 * (v div 2 mod 2) + v mod 2 = v mod 8"
proof -
  have a: "v mod 8 = 2 * (v div 2 mod 4) + v mod 2"
    using zmod_zmult2_eq [of 4 v 2] by simp
  have d4: "v div 2 div 2 = v div 4"
    using zdiv_zmult2_eq [of 2 v 2] by simp
  have b: "v div 2 mod 4 = 2 * (v div 4 mod 2) + v div 2 mod 2"
    using zmod_zmult2_eq [of 2 "v div 2" 2] by (simp add: d4)
  show ?thesis unfolding a b by simp
qed

lemma low2: "2 * ((v::int) div 2 mod 2) + v mod 2 = v mod 4"
  using zmod_zmult2_eq [of 2 v 2] by simp

lemma bitval_shift: "bitval m (s + k) = bitval (m div 2 ^ s) k"
  using zdiv_zmult2_eq [of "2 ^ k" m "2 ^ s"] by (simp add: bitval_def power_add)

lemma bitval_low:
  "bitval v 0 = v mod 2" "bitval v 1 = v div 2 mod 2" "bitval v 2 = v div 4 mod 2" "bitval v 3 = v div 8 mod 2"
  by (simp_all add: bitval_def)

lemma digit4_0: "8 * bitval m 3 + 4 * bitval m 2 + 2 * bitval m 1 + bitval m 0 = m mod 16"
  unfolding bitval_low by (rule low4)

lemma digit3_0: "4 * bitval m 2 + 2 * bitval m 1 + bitval m 0 = m mod 8"
  unfolding bitval_low by (rule low3)

lemma digit4_4: "8 * bitval m 7 + 4 * bitval m 6 + 2 * bitval m 5 + bitval m 4 = m div 16 mod 16"
  using bitval_shift [of m 4 3] bitval_shift [of m 4 2] bitval_shift [of m 4 1] bitval_shift [of m 4 0]
    digit4_0 [of "m div 16"] by simp

lemma digit3_4: "4 * bitval m 6 + 2 * bitval m 5 + bitval m 4 = m div 16 mod 8"
  using bitval_shift [of m 4 2] bitval_shift [of m 4 1] bitval_shift [of m 4 0]
    digit3_0 [of "m div 16"] by simp

lemma digit2_0: "2 * bitval m 1 + bitval m 0 = m mod 4"
  unfolding bitval_low by (rule low2)

lemma digit2_4: "2 * bitval m 5 + bitval m 4 = m div 16 mod 4"
  using bitval_shift [of m 4 1] bitval_shift [of m 4 0] digit2_0 [of "m div 16"] by simp

lemma digit2_8: "2 * bitval m 9 + bitval m 8 = m div 256 mod 4"
  using bitval_shift [of m 8 1] bitval_shift [of m 8 0] digit2_0 [of "m div 256"] by simp

lemma bcd_digits:
  assumes "0 \<le> n" "n < 1000"
  shows "dec2BCD n mod 16 = n mod 10" "dec2BCD n div 16 mod 16 = n div 10 mod 10" "dec2BCD n div 256 = n div 100" "0 \<le> dec2BCD n"
proof -
  define a where "a = n div 100"
  define b where "b = n div 10 mod 10"
  define c where "c = n mod 10"
  have m: "dec2BCD n = a * 256 + b * 16 + c"
    using assms by (simp add: dec2BCD_small a_def b_def c_def)
  have r: "0 \<le> a" "0 \<le> b" "b < 10" "0 \<le> c" "c < 10"
    using assms by (simp_all add: a_def b_def c_def pos_imp_zdiv_nonneg_iff)
  have e: "a * 256 + b * 16 + c = c + (16 * a + b) * 16" by simp
  have f: "16 * a + b = b + a * 16" by simp
  have c16: "c mod 16 = c" "c div 16 = 0" "b mod 16 = b" "b div 16 = 0" using r by simp_all
  have m16: "(a * 256 + b * 16 + c) mod 16 = c"
    unfolding e using mod_mult_self1 [of c "16 * a + b" 16] c16 by simp
  have d16: "(a * 256 + b * 16 + c) div 16 = b + a * 16"
    unfolding e using div_mult_self1 [of 16 c "16 * a + b"] c16 by simp
  have dm: "(b + a * 16) mod 16 = b" "(b + a * 16) div 16 = a"
    using mod_mult_self1 [of b a 16] div_mult_self1 [of 16 b a] c16 by simp_all
  have d256: "(a * 256 + b * 16 + c) div 256 = a"
    using zdiv_zmult2_eq [of 16 "a * 256 + b * 16 + c" 16] d16 dm by simp
  show "dec2BCD n mod 16 = n mod 10" unfolding m c_def [symmetric] by (rule m16)
  show "dec2BCD n div 16 mod 16 = n div 10 mod 10" unfolding m b_def [symmetric] d16 by (rule dm)
  show "dec2BCD n div 256 = n div 100" unfolding m a_def [symmetric] by (rule d256)
  show "0 \<le> dec2BCD n" using r unfolding m by simp
qed

lemma div10_range: "0 \<le> (n::int) \<Longrightarrow> n < 10 * k \<Longrightarrow> 0 \<le> n div 10 \<and> n div 10 < k"
  by (simp add: pos_imp_zdiv_nonneg_iff)

lemma tens_digit:
  assumes "0 \<le> (n::int)" "n < 10 * k" "k \<le> 10"
  shows "n div 10 mod 10 = n div 10" "0 \<le> n div 10" "n div 10 < k"
proof -
  define t where "t = n div 10"
  have r: "0 \<le> t \<and> t < k" unfolding t_def using assms(1,2) by (rule div10_range)
  then have "t < 10" using assms(3) by simp
  with r have "t mod 10 = t" by simp
  then show "n div 10 mod 10 = n div 10" unfolding t_def .
  show "0 \<le> n div 10" "n div 10 < k" using r unfolding t_def by blast+
qed

lemma tens8: "x mod 16 = t \<Longrightarrow> 0 \<le> t \<Longrightarrow> t < 8 \<Longrightarrow> x mod 8 = (t::int)"
proof -
  assume a: "x mod 16 = t" "0 \<le> t" "t < 8"
  have "x mod 8 = x mod 16 mod 8" by (simp add: mod_mod_cancel)
  also have "\<dots> = t mod 8" by (simp only: a(1))
  also have "\<dots> = t" using a(2,3) by simp
  finally show ?thesis .
qed

lemma tens4: "x mod 16 = t \<Longrightarrow> 0 \<le> t \<Longrightarrow> t < 4 \<Longrightarrow> x mod 4 = (t::int)"
proof -
  assume a: "x mod 16 = t" "0 \<le> t" "t < 4"
  have "x mod 4 = x mod 16 mod 4" by (simp add: mod_mod_cancel)
  also have "\<dots> = t mod 4" by (simp only: a(1))
  also have "\<dots> = t" using a(2,3) by simp
  finally show ?thesis .
qed

lemma recompose2: "10 * ((n::int) div 10) + n mod 10 = n"
  by simp

lemma recompose3: "100 * ((n::int) div 100) + 10 * (n div 10 mod 10) + n mod 10 = n"
proof -
  have h: "100 * a + 10 * b = 10 * (10 * a + b)" for a b :: int by simp
  have "n div 100 = n div 10 div 10" using zdiv_zmult2_eq [of 10 n 10] by simp
  then have "100 * (n div 100) + 10 * (n div 10 mod 10) = 10 * (10 * (n div 10 div 10) + n div 10 mod 10)"
    by (simp only: h)
  also have "\<dots> = 10 * (n div 10)" by (simp only: mult_div_mod_eq)
  finally show ?thesis by simp
qed

lemma decode_min_set_min:
  assumes "length sg = 62" "0 \<le> n" "n < 60"
  shows "decode_min (set_min n sg) = n"
proof -
  let ?m = "dec2BCD n"
  have n: "n < 1000" "n < 10 * 6" using assms(3) by simp_all
  note d = bcd_digits [OF assms(2) n(1)]
  have k: "(6::int) \<le> 10" by simp
  note t = tens_digit [OF assms(2) n(2) k]
  have t8: "n div 10 < 8" using t(3) by (rule order_less_trans) simp
  have "decode_min (set_min n sg) = 10 * (?m div 16 mod 8) + ?m mod 16"
    unfolding decode_min_def set_min_slots [OF assms(1) d(4)] digit3_4 digit4_0 ..
  also have "?m div 16 mod 8 = n div 10"
    using d(2) [unfolded t(1)] t(2) t8 by (rule tens8)
  also have "10 * (n div 10) + ?m mod 16 = n"
    unfolding d(1) by (rule recompose2)
  finally show ?thesis .
qed

lemma decode_hour_set_hour:
  assumes "length sg = 62" "0 \<le> n" "n < 24"
  shows "decode_hour (set_hour n sg) = n"
proof -
  let ?m = "dec2BCD n"
  have n: "n < 1000" "n < 10 * 3" using assms(3) by simp_all
  note d = bcd_digits [OF assms(2) n(1)]
  have k: "(3::int) \<le> 10" by simp
  note t = tens_digit [OF assms(2) n(2) k]
  have t4: "n div 10 < 4" using t(3) by (rule order_less_trans) simp
  have "decode_hour (set_hour n sg) = 10 * (?m div 16 mod 4) + ?m mod 16"
    unfolding decode_hour_def set_hour_slots [OF assms(1) d(4)] digit2_4 digit4_0 ..
  also have "?m div 16 mod 4 = n div 10"
    using d(2) [unfolded t(1)] t(2) t4 by (rule tens4)
  also have "10 * (n div 10) + ?m mod 16 = n"
    unfolding d(1) by (rule recompose2)
  finally show ?thesis .
qed

lemma decode_year_set_year:
  assumes "length sg = 62" "0 \<le> n" "n < 100"
  shows "decode_year (set_year n sg) = n"
proof -
  let ?m = "dec2BCD n"
  have n: "n < 1000" "n < 10 * 10" using assms(3) by simp_all
  note d = bcd_digits [OF assms(2) n(1)]
  note t = tens_digit [OF assms(2) n(2) order_refl]
  have "decode_year (set_year n sg) = 10 * (?m div 16 mod 16) + ?m mod 16"
    unfolding decode_year_def set_year_slots [OF assms(1) d(4)] digit4_4 digit4_0 ..
  also have "\<dots> = 10 * (n div 10) + n mod 10"
    unfolding d(1) d(2) t(1) ..
  also have "\<dots> = n" by (rule recompose2)
  finally show ?thesis .
qed

lemma div100_range: "0 \<le> (n::int) \<Longrightarrow> n < 100 * k \<Longrightarrow> 0 \<le> n div 100 \<and> n div 100 < k"
  by (simp add: pos_imp_zdiv_nonneg_iff)

lemma decode_day_set_day:
  assumes "length sg = 62" "1 \<le> n" "n \<le> 366"
  shows "decode_day (set_day n sg) = n"
proof -
  let ?m = "dec2BCD n"
  have n: "0 \<le> n" "n < 1000" "n < 100 * 4" using assms(2,3) by simp_all
  note d = bcd_digits [OF n(1) n(2)]
  define a where "a = n div 100"
  have r: "0 \<le> a \<and> a < 4" unfolding a_def using n(1) n(3) by (rule div100_range)
  then have a4: "a mod 4 = a" by simp
  have "decode_day (set_day n sg) = 100 * (?m div 256 mod 4) + 10 * (?m div 16 mod 16) + ?m mod 16"
    unfolding decode_day_def set_day_slots [OF assms(1) d(4)] digit2_8 digit4_4 digit4_0 ..
  also have "\<dots> = 100 * (n div 100) + 10 * (n div 10 mod 10) + n mod 10"
    unfolding d(1) d(2) d(3) a_def [symmetric] a4 ..
  also have "\<dots> = n" by (rule recompose3)
  finally show ?thesis .
qed

lemma decode_wday_set_wday:
  assumes "length sg = 62" "0 \<le> n" "n < 7"
  shows "decode_wday (set_wday n sg) = n"
proof -
  have "decode_wday (set_wday n sg) = n mod 8"
    unfolding decode_wday_def set_wday_slots [OF assms(1,2)] digit3_0 ..
  also have "\<dots> = n" using assms(2,3) by simp
  finally show ?thesis .
qed

lemma decode_min_frame:
  "decode_min (set_hour n sg) = decode_min sg" "decode_min (set_day n sg) = decode_min sg"
  "decode_min (set_wday n sg) = decode_min sg" "decode_min (set_year n sg) = decode_min sg"
  by (simp_all add: decode_min_def slot_def set_hour_frame set_day_frame set_wday_frame set_year_frame)

lemma decode_hour_frame:
  "decode_hour (set_day n sg) = decode_hour sg"
  "decode_hour (set_wday n sg) = decode_hour sg" "decode_hour (set_year n sg) = decode_hour sg"
  by (simp_all add: decode_hour_def slot_def set_day_frame set_wday_frame set_year_frame)

lemma decode_day_frame:
  "decode_day (set_wday n sg) = decode_day sg" "decode_day (set_year n sg) = decode_day sg"
  by (simp_all add: decode_day_def slot_def set_wday_frame set_year_frame)

lemma decode_wday_frame:
  "decode_wday (set_year n sg) = decode_wday sg"
  by (simp_all add: decode_wday_def slot_def set_year_frame)

text \<open>
  C1. For every minute 0..59, hour 0..23, day of the year 1..366, year in the century
  0..99 and weekday 0..6, and from any buffer of 62 slots, the buffer left by
  \<^verbatim>\<open>set_min\<close>, \<^verbatim>\<open>set_hour\<close>, \<^verbatim>\<open>set_day\<close>, \<^verbatim>\<open>set_wday\<close> and \<^verbatim>\<open>set_year\<close> (in the order
  of the sketch) decodes, slot by slot at the offsets of the fields, to the five values
  that were encoded.
\<close>

theorem C1_field_roundtrip:
  assumes "length sg = 62"
    and "0 \<le> mi" "mi \<le> 59" and "0 \<le> h" "h \<le> 23" and "1 \<le> d" "d \<le> 366"
    and "0 \<le> y" "y \<le> 99" and "0 \<le> w" "w \<le> 6"
  shows "let sg' = set_year y (set_wday w (set_day d (set_hour h (set_min mi sg))))
         in decode_min sg' = mi \<and> decode_hour sg' = h \<and> decode_day sg' = d
          \<and> decode_year sg' = y \<and> decode_wday sg' = w"
proof -
  have mi: "mi < 60" and h: "h < 24" and y: "y < 100" and w: "w < 7"
    using assms by simp_all
  have l: "length (set_min mi sg) = 62" "length (set_hour h (set_min mi sg)) = 62"
    "length (set_day d (set_hour h (set_min mi sg))) = 62"
    "length (set_wday w (set_day d (set_hour h (set_min mi sg)))) = 62"
    using assms(1) by simp_all
  show ?thesis
    unfolding Let_def decode_min_frame decode_hour_frame decode_day_frame decode_wday_frame
    using decode_min_set_min [OF assms(1,2) mi] decode_hour_set_hour [OF l(1) assms(4) h]
      decode_day_set_day [OF l(2) assms(6,7)] decode_wday_set_wday [OF l(3) assms(10) w]
      decode_year_set_year [OF l(4) assms(8) y]
    by blast
qed

theorem C1_field_roundtrip_witness:
  "length (replicate 62 (0 :: 8 word)) = 62
   \<and> (0::int) \<le> 34 \<and> (34::int) \<le> 59 \<and> (0::int) \<le> 12 \<and> (12::int) \<le> 23
   \<and> (1::int) \<le> 366 \<and> (366::int) \<le> 366 \<and> (0::int) \<le> 99 \<and> (99::int) \<le> 99
   \<and> (0::int) \<le> 6 \<and> (6::int) \<le> 6
   \<and> (let sg' = set_year 99 (set_wday 6 (set_day 366 (set_hour 12 (set_min 34 (replicate 62 0)))))
        in decode_min sg' = 34 \<and> decode_hour sg' = 12 \<and> decode_day sg' = 366
         \<and> decode_year sg' = 99 \<and> decode_wday sg' = 6)"
proof -
  have l: "length (replicate 62 (0 :: 8 word)) = 62" by simp
  have c: "let sg' = set_year 99 (set_wday 6 (set_day 366 (set_hour 12 (set_min 34 (replicate 62 0)))))
           in decode_min sg' = 34 \<and> decode_hour sg' = 12 \<and> decode_day sg' = 366
            \<and> decode_year sg' = 99 \<and> decode_wday sg' = 6"
    by (rule C1_field_roundtrip [OF l]) simp_all
  show ?thesis by (intro conjI c l) simp_all
qed

section \<open>The parity slots\<close>

lemma stored_bit_01:
  "0 \<le> m \<Longrightarrow> (word_of_int (drop_bit k m smod 2) :: 8 word) = 0 \<or> (word_of_int (drop_bit k m smod 2) :: 8 word) = 1"
proof -
  assume m: "0 \<le> m"
  define b where "b = drop_bit k m"
  have "0 \<le> b" using m by (simp add: b_def)
  then have "b smod 2 = b mod 2" by (auto simp: signed_modulo_int_def sgn_if)
  moreover have "b mod 2 = 0 \<or> b mod 2 = 1" by auto
  ultimately show ?thesis unfolding b_def by auto
qed

lemma put_bits_01:
  assumes "distinct is" "0 \<le> m" "\<forall>i\<in>set is. i < length sg" "i \<in> set is"
  shows "put_bits is m sg ! i = 0 \<or> put_bits is m sg ! i = 1"
proof -
  from assms(4) obtain k where k: "k < length is" "is ! k = i" by (auto simp: in_set_conv_nth)
  with assms(3) have "is ! k < length sg" by auto
  from put_bits_nth [OF assms(1) k(1) this, of m] k(2) stored_bit_01 [OF assms(2), of k]
  show ?thesis by simp
qed

lemma xor01:
  assumes "a = 0 \<or> a = (1 :: 8 word)" "x = 0 \<or> x = (1 :: 8 word)" "uint x = S mod 2"
  shows "(a XOR x = 0 \<or> a XOR x = 1) \<and> uint (a XOR x) = (uint a + S) mod 2"
proof -
  have e: "(uint a + S) mod 2 = (uint a + uint x) mod 2"
    unfolding assms(3) by (simp add: mod_add_right_eq)
  from assms(1,2) show ?thesis unfolding e by auto
qed

lemma xor_slots_sum:
  "\<forall>i\<in>set is. sg ! i = 0 \<or> sg ! i = 1 \<Longrightarrow>
   (xor_slots sg is = 0 \<or> xor_slots sg is = 1) \<and> uint (xor_slots sg is) = sum_list (map (\<lambda>i. uint (sg ! i)) is) mod 2"
proof (induction sg "is" rule: xor_slots.induct)
  case (1 sg)
  then show ?case by (simp add: xor_slots.simps)
next
  case (2 sg i)
  then show ?case by (auto simp: xor_slots.simps)
next
  case (3 sg i j "is")
  then have ih: "(xor_slots sg (j # is) = 0 \<or> xor_slots sg (j # is) = 1)"
      "uint (xor_slots sg (j # is)) = sum_list (map (\<lambda>i. uint (sg ! i)) (j # is)) mod 2"
    by auto
  from 3 have a: "sg ! i = 0 \<or> sg ! i = 1" by simp
  from xor01 [OF a ih] show ?case by (simp add: xor_slots.simps)
qed

lemma set_hour_xor:
  assumes "length sg = 62"
  shows "set_hour n sg ! 36 = set_hour n sg ! 12 XOR set_hour n sg ! 13 XOR set_hour n sg ! 15
           XOR set_hour n sg ! 16 XOR set_hour n sg ! 17 XOR set_hour n sg ! 18"
  using assms by (simp add: set_hour_put Let_def xor_slots.simps ac_simps)

lemma set_min_xor:
  assumes "length sg = 62"
  shows "set_min n sg ! 37 = set_min n sg ! 1 XOR set_min n sg ! 2 XOR set_min n sg ! 3
           XOR set_min n sg ! 5 XOR set_min n sg ! 6 XOR set_min n sg ! 7 XOR set_min n sg ! 8"
  using assms by (simp add: set_min_put Let_def xor_slots.simps ac_simps)

lemma set_hour_sum:
  assumes "length sg = 62" "0 \<le> dec2BCD n"
  shows "slot (set_hour n sg) 36 = (slot (set_hour n sg) 12 + slot (set_hour n sg) 13 + slot (set_hour n sg) 15
           + slot (set_hour n sg) 16 + slot (set_hour n sg) 17 + slot (set_hour n sg) 18) mod 2"
proof -
  define P where "P = put_bits [18,17,16,15,13,12] (dec2BCD n) sg"
  have "\<forall>i\<in>set [18,17,16,15,13,12]. P ! i = 0 \<or> P ! i = 1"
    using put_bits_01 [of "[18,17,16,15,13,12]" "dec2BCD n" sg] assms unfolding P_def by simp
  from xor_slots_sum [OF this]
  have "uint (xor_slots P [18,17,16,15,13,12]) = sum_list (map (\<lambda>i. uint (P ! i)) [18,17,16,15,13,12]) mod 2"
    by blast
  moreover have "length P = 62" using assms by (simp add: P_def)
  moreover have "set_hour n sg = P[36 := xor_slots P [18,17,16,15,13,12]]"
    unfolding P_def by (simp only: set_hour_put Let_def)
  ultimately show ?thesis
    by (simp add: slot_def ac_simps)
qed

lemma set_min_sum:
  assumes "length sg = 62" "0 \<le> dec2BCD n"
  shows "slot (set_min n sg) 37 = (slot (set_min n sg) 1 + slot (set_min n sg) 2 + slot (set_min n sg) 3
           + slot (set_min n sg) 5 + slot (set_min n sg) 6 + slot (set_min n sg) 7 + slot (set_min n sg) 8) mod 2"
proof -
  define P where "P = put_bits [8,7,6,5,3,2,1] (dec2BCD n) sg"
  have "\<forall>i\<in>set [8,7,6,5,3,2,1]. P ! i = 0 \<or> P ! i = 1"
    using put_bits_01 [of "[8,7,6,5,3,2,1]" "dec2BCD n" sg] assms unfolding P_def by simp
  from xor_slots_sum [OF this]
  have "uint (xor_slots P [8,7,6,5,3,2,1]) = sum_list (map (\<lambda>i. uint (P ! i)) [8,7,6,5,3,2,1]) mod 2"
    by blast
  moreover have "length P = 62" using assms by (simp add: P_def)
  moreover have "set_min n sg = P[37 := xor_slots P [8,7,6,5,3,2,1]]"
    unfolding P_def by (simp only: set_min_put Let_def)
  ultimately show ?thesis
    by (simp add: slot_def ac_simps)
qed

lemma set_fix_length [simp]: "length (set_fix sg) = length sg"
  by (simp add: set_fix_def Let_def)

text \<open>
  C2. For every minute 0..59 and hour 0..23 (and any day, weekday and year), in the buffer
  built by \<^verbatim>\<open>set_fix\<close> and the field encoders slot 36 is the exclusive or of the hour
  slots 12, 13, 15, 16, 17, 18 and slot 37 the exclusive or of the minute slots 1, 2, 3, 5,
  6, 7, 8; read as numbers, each parity slot is the sum of its slots modulo 2.
\<close>

theorem C2_parity:
  assumes "length sg = 62" and "0 \<le> mi" "mi \<le> 59" and "0 \<le> h" "h \<le> 23"
  shows "let sg' = set_year y (set_wday w (set_day d (set_hour h (set_min mi (set_fix sg)))))
         in sg' ! 36 = sg' ! 12 XOR sg' ! 13 XOR sg' ! 15 XOR sg' ! 16 XOR sg' ! 17 XOR sg' ! 18
          \<and> slot sg' 36 = (slot sg' 12 + slot sg' 13 + slot sg' 15 + slot sg' 16 + slot sg' 17 + slot sg' 18) mod 2
          \<and> sg' ! 37 = sg' ! 1 XOR sg' ! 2 XOR sg' ! 3 XOR sg' ! 5 XOR sg' ! 6 XOR sg' ! 7 XOR sg' ! 8
          \<and> slot sg' 37 = (slot sg' 1 + slot sg' 2 + slot sg' 3 + slot sg' 5 + slot sg' 6 + slot sg' 7 + slot sg' 8) mod 2"
proof -
  define X where "X = set_min mi (set_fix sg)"
  define H where "H = set_hour h X"
  have lX: "length (set_fix sg) = 62" "length X = 62" using assms(1) by (simp_all add: X_def)
  have m: "0 \<le> dec2BCD mi" using assms(2,3) by (intro bcd_digits(4)) simp_all
  have hh: "0 \<le> dec2BCD h" using assms(4,5) by (intro bcd_digits(4)) simp_all
  have f: "set_year y (set_wday w (set_day d H)) ! i = H ! i"
    if "i \<in> set [12,13,15,16,17,18,36,1,2,3,5,6,7,8,37]" for i
    using that by (auto simp: set_year_frame set_wday_frame set_day_frame)
  have g: "H ! i = X ! i" if "i \<in> set [1,2,3,5,6,7,8,37]" for i
    using that unfolding H_def by (auto simp: set_hour_frame)
  note hx = set_hour_xor [OF lX(2), of h, folded H_def]
  note hs = set_hour_sum [OF lX(2) hh, folded H_def]
  note mx = set_min_xor [OF lX(1), of mi, folded X_def]
  note ms = set_min_sum [OF lX(1) m, folded X_def]
  show ?thesis
    unfolding Let_def X_def [symmetric] H_def [symmetric] slot_def
    using hx hs mx ms by (simp add: f g slot_def)
qed

theorem C2_parity_witness:
  "length (replicate 62 (7 :: 8 word)) = 62 \<and> (0::int) \<le> 59 \<and> (59::int) \<le> 59 \<and> (0::int) \<le> 23 \<and> (23::int) \<le> 23
   \<and> (let sg' = set_year 25 (set_wday 3 (set_day 200 (set_hour 23 (set_min 59 (set_fix (replicate 62 7))))))
        in sg' ! 36 = sg' ! 12 XOR sg' ! 13 XOR sg' ! 15 XOR sg' ! 16 XOR sg' ! 17 XOR sg' ! 18
         \<and> slot sg' 36 = (slot sg' 12 + slot sg' 13 + slot sg' 15 + slot sg' 16 + slot sg' 17 + slot sg' 18) mod 2
         \<and> sg' ! 37 = sg' ! 1 XOR sg' ! 2 XOR sg' ! 3 XOR sg' ! 5 XOR sg' ! 6 XOR sg' ! 7 XOR sg' ! 8
         \<and> slot sg' 37 = (slot sg' 1 + slot sg' 2 + slot sg' 3 + slot sg' 5 + slot sg' 6 + slot sg' 7 + slot sg' 8) mod 2)"
proof -
  have l: "length (replicate 62 (7 :: 8 word)) = 62" by simp
  have c: "let sg' = set_year 25 (set_wday 3 (set_day 200 (set_hour 23 (set_min 59 (set_fix (replicate 62 7))))))
        in sg' ! 36 = sg' ! 12 XOR sg' ! 13 XOR sg' ! 15 XOR sg' ! 16 XOR sg' ! 17 XOR sg' ! 18
         \<and> slot sg' 36 = (slot sg' 12 + slot sg' 13 + slot sg' 15 + slot sg' 16 + slot sg' 17 + slot sg' 18) mod 2
         \<and> sg' ! 37 = sg' ! 1 XOR sg' ! 2 XOR sg' ! 3 XOR sg' ! 5 XOR sg' ! 6 XOR sg' ! 7 XOR sg' ! 8
         \<and> slot sg' 37 = (slot sg' 1 + slot sg' 2 + slot sg' 3 + slot sg' 5 + slot sg' 6 + slot sg' 7 + slot sg' 8) mod 2"
    by (rule C2_parity [OF l]) simp_all
  show ?thesis by (intro conjI c l) simp_all
qed

section \<open>The leap-second flags\<close>

lemma set_fix_flags: "length sg = 62 \<Longrightarrow> set_fix sg ! 53 = 0 \<and> set_fix sg ! 54 = 0"
  by (simp add: set_fix_def Let_def)

lemma leap_adjust_length: "leap_adjust sec sg = (sg', se, sh) \<Longrightarrow> length sg' = length sg"
  by (auto simp: leap_adjust_def split: if_splits)

lemma encoders_keep_flags:
  "leap_flags (set_year y (set_wday w (set_day d (set_hour h (set_min mi sg))))) = leap_flags sg"
  by (simp add: leap_flags_def set_year_frame set_wday_frame set_day_frame set_hour_frame set_min_frame)

lemma build_frame_flags:
  assumes "length sg0 = 62" "build_frame timeInfo sg0 = Inr (sg, se, sh)"
  shows "leap_flags sg = (0, 0)"
proof -
  obtain sg1 se1 sh1 where la: "leap_adjust (tm_sec timeInfo) sg0 = (sg1, se1, sh1)"
    by (cases "leap_adjust (tm_sec timeInfo) sg0") auto
  then have l: "length sg1 = 62" using assms(1) leap_adjust_length by fastforce
  from assms(2) la obtain y d where
    "sg = set_year y (set_wday (tm_wday timeInfo) (set_day d (set_hour (tm_hour timeInfo) (set_min (tm_min timeInfo) (set_fix sg1)))))"
    by (auto simp: build_frame_def Let_def split: sum.splits)
  then show ?thesis
    using set_fix_flags [OF l] by (simp add: encoders_keep_flags) (simp add: leap_flags_def)
qed

lemma yday_loop_done: "\<not> i < mon \<Longrightarrow> yday_loop i mon yday = Inr yday"
  by (subst yday_loop.simps) simp

lemma build_frame_leap60:
  "\<exists>sg. build_frame tm_leap60 (replicate 62 0) = Inr (sg, 59, 1)"
  by (simp add: build_frame_def compute_yday_def tm_leap60_def yday_loop_done leap_adjust_def Let_def
        signed_modulo_int_def)

text \<open>
  C3 fails on the sketch. In a leap second (\<^verbatim>\<open>tm_sec\<close> = 60) the adjustment sets the flag
  slots 53 and 54 to (1, 0), ready for a buffer that starts at index 59 and is one slot
  longer; \<^verbatim>\<open>set_fix\<close>, which is called next, clears both, and no encoder writes them
  again. When transmission begins the pair is (0, 0), where the claim has (1, 0).
\<close>

theorem C3_leap_flags_overwritten:
  "leap_flags (fst (leap_adjust 60 (replicate 62 0))) = (1, 0)
   \<and> map_sum id (\<lambda>(sg, se, sh). (leap_flags sg, se, sh)) (build_frame tm_leap60 (replicate 62 0))
       = Inr ((0, 0), 59, 1)"
proof -
  from build_frame_leap60 obtain sg where b: "build_frame tm_leap60 (replicate 62 0) = Inr (sg, 59, 1)" ..
  have "leap_flags sg = (0, 0)" by (rule build_frame_flags [OF _ b]) simp
  with b show ?thesis by (simp add: leap_adjust_def leap_flags_def)
qed

(*PROOFS*)
section \<open>The transmission loop\<close>

lemma send_slot_length: "send_slot cs sg k = (sg1, v, w) \<Longrightarrow> length sg1 = length sg"
  by (auto simp: send_slot_def Let_def split: if_splits)

lemma send_slot_frame: "send_slot cs sg k = (sg1, v, w) \<Longrightarrow> j \<noteq> k \<Longrightarrow> sg1 ! j = sg ! j"
  by (auto simp: send_slot_def Let_def split: if_splits)

lemma send_slot_local:
  assumes "sg1 ! k = sg ! k" "k < length sg" "k < length sg1"
  shows "snd (send_slot cs sg1 k) = snd (send_slot cs sg k)"
    and "fst (send_slot cs sg1 k) ! k = fst (send_slot cs sg k) ! k"
  using assms by (simp_all add: send_slot_def Let_def)

lemma char_to_int_0 [simp]: "char_to_int cs 0 = 0"
  by (simp add: char_to_int_def)

lemma send_slot_coerce:
  assumes "k < length sg" "char_to_int cs (sg ! k) \<notin> {- 1, 0, 1, 255}"
  shows "send_slot cs sg k = (sg[k := 0], 0, zero)"
  using assms by (simp add: send_slot_def Let_def)

lemma send_slot_checked:
  assumes "k < length sg" "send_slot cs sg k = (sg1, v, w)"
  shows "v \<in> {- 1, 0, 1, 255}" and "w = (if v = - 1 \<or> v = 255 then mark else if v = 0 then zero else one)"
  using assms by (auto simp: send_slot_def Let_def split: if_splits)

lemma tx_loop_stop: "\<not> (i < 60 + sh \<and> i < 62) \<Longrightarrow> tx_loop cs i sh sg = Inr (sg, [])"
  by (subst tx_loop.simps) auto

lemma tx_loop_out_of_bounds:
  "i < 60 + sh \<and> i < 62 \<Longrightarrow> \<not> (0 \<le> i \<and> nat i < length sg) \<Longrightarrow> tx_loop cs i sh sg = Inl (OutOfBounds i)"
  by (subst tx_loop.simps) auto

lemma tx_loop_step:
  "i < 60 + sh \<and> i < 62 \<Longrightarrow> 0 \<le> i \<and> nat i < length sg \<Longrightarrow> send_slot cs sg (nat i) = (sg1, v, w) \<Longrightarrow>
   tx_loop cs i sh sg = (case tx_loop cs (i + 1) sh sg1 of Inl e \<Rightarrow> Inl e | Inr (sg2, out) \<Rightarrow> Inr (sg2, (i, v, w) # out))"
  by (subst tx_loop.simps) auto

lemma tx_loop_sound:
  "tx_loop cs i0 sh sg = Inr (sg', out) \<Longrightarrow>
     length sg' = length sg
   \<and> (\<forall>j. int j < i0 \<longrightarrow> sg' ! j = sg ! j)
   \<and> (\<forall>(i, v, w) \<in> set out. i0 \<le> i \<and> 0 \<le> i \<and> nat i < length sg
         \<and> snd (send_slot cs sg (nat i)) = (v, w)
         \<and> sg' ! nat i = fst (send_slot cs sg (nat i)) ! nat i)"
proof (induction cs i0 sh sg arbitrary: sg' out rule: tx_loop.induct)
  case (1 cs i sh sg)
  show ?case
  proof (cases "i < 60 + sh \<and> i < 62")
    case False
    then have "tx_loop cs i sh sg = Inr (sg, [])"
      by (rule tx_loop_stop)
    with "1.prems" show ?thesis by simp
  next
    case True
    note run = this
    show ?thesis
    proof (cases "0 \<le> i \<and> nat i < length sg")
      case False
      with run have "tx_loop cs i sh sg = Inl (OutOfBounds i)"
        by (rule tx_loop_out_of_bounds)
      with "1.prems" show ?thesis by simp
    next
      case True
      note inb = this
      obtain sg1 v0 w0 where s: "send_slot cs sg (nat i) = (sg1, v0, w0)"
        by (cases "send_slot cs sg (nat i)") auto
      from "1.prems" run inb s obtain out' where
        r: "tx_loop cs (i + 1) sh sg1 = Inr (sg', out')" and o: "out = (i, v0, w0) # out'"
        unfolding tx_loop_step [OF run inb s] by (auto split: sum.splits)
      from "1.IH" [OF run inb s [symmetric] refl r]
      have ih: "length sg' = length sg1" "\<And>j. int j < i + 1 \<Longrightarrow> sg' ! j = sg1 ! j"
        "\<And>k v w. (k, v, w) \<in> set out' \<Longrightarrow> i + 1 \<le> k \<and> 0 \<le> k \<and> nat k < length sg1
           \<and> snd (send_slot cs sg1 (nat k)) = (v, w)
           \<and> sg' ! nat k = fst (send_slot cs sg1 (nat k)) ! nat k"
        by auto
      note l1 = send_slot_length [OF s]
      have a: "length sg' = length sg" using ih(1) l1 by simp
      have b: "sg' ! j = sg ! j" if "int j < i" for j
      proof -
        from that inb have "j \<noteq> nat i" by auto
        from send_slot_frame [OF s this] ih(2) [of j] that show ?thesis by simp
      qed
      have c: "i \<le> k \<and> 0 \<le> k \<and> nat k < length sg
           \<and> snd (send_slot cs sg (nat k)) = (v, w)
           \<and> sg' ! nat k = fst (send_slot cs sg (nat k)) ! nat k" if "(k, v, w) \<in> set out" for k v w
      proof (cases "(k, v, w) = (i, v0, w0)")
        case True
        have "sg' ! nat i = sg1 ! nat i" using inb by (intro ih(2)) auto
        with True s inb show ?thesis by simp
      next
        case False
        with that o have m: "(k, v, w) \<in> set out'" by auto
        note h = ih(3) [OF m]
        then have ne: "nat k \<noteq> nat i" using inb by auto
        have e: "sg1 ! nat k = sg ! nat k" by (rule send_slot_frame [OF s ne])
        have k1: "nat k < length sg" "nat k < length sg1" using h l1 by simp_all
        from send_slot_local [OF e k1, of cs] h show ?thesis using l1 by simp
      qed
      from a b c show ?thesis by auto
    qed
  qed
qed

lemma tx_loop_runs:
  "0 \<le> i0 \<Longrightarrow> length sg = 62 \<Longrightarrow>
   \<exists>sg' out. tx_loop cs i0 sh sg = Inr (sg', out) \<and> map fst out = [i0 .. min (60 + sh) 62 - 1]"
proof (induction cs i0 sh sg rule: tx_loop.induct)
  case (1 cs i sh sg)
  show ?case
  proof (cases "i < 60 + sh \<and> i < 62")
    case False
    then have "[i .. min (60 + sh) 62 - 1] = []" by auto
    moreover from False have "tx_loop cs i sh sg = Inr (sg, [])"
      by (rule tx_loop_stop)
    ultimately show ?thesis by simp
  next
    case True
    note run = this
    with "1.prems" have inb: "0 \<le> i \<and> nat i < length sg" by auto
    obtain sg1 v0 w0 where s: "send_slot cs sg (nat i) = (sg1, v0, w0)"
      by (cases "send_slot cs sg (nat i)") auto
    have l1: "length sg1 = 62" using send_slot_length [OF s] "1.prems" by simp
    have i1: "0 \<le> i + 1" using "1.prems" by simp
    from "1.IH" [OF run inb s [symmetric] refl i1 l1]
    obtain sg' out' where r: "tx_loop cs (i + 1) sh sg1 = Inr (sg', out')"
      and m: "map fst out' = [i + 1 .. min (60 + sh) 62 - 1]" by blast
    have u: "[i .. min (60 + sh) 62 - 1] = i # [i + 1 .. min (60 + sh) 62 - 1]"
      using run by (subst upto.simps) auto
    have "tx_loop cs i sh sg = Inr (sg', (i, v0, w0) # out')"
      unfolding tx_loop_step [OF run inb s] using r by simp
    with m u show ?thesis by simp
  qed
qed

text \<open>
  C9. For every first index \<open>se\<close> in 0..61, every shift \<open>sh\<close> in {0, 1, 2} and every buffer
  of 62 slots, the transmission loop ends without an access outside the array, and the
  indices it visits are exactly \<open>se\<close>, ..., \<open>59 + sh\<close>: all of them from \<open>se\<close> to 61 and
  below the length of the array.
\<close>

theorem C9_loop_in_bounds:
  assumes "length sg = 62" and "0 \<le> se" "se \<le> 61" and "sh = 0 \<or> sh = 1 \<or> sh = 2"
  shows "\<exists>sg' out. tx_loop cs se sh sg = Inr (sg', out)
           \<and> map fst out = [se .. 59 + sh]
           \<and> (\<forall>i \<in> set (map fst out). se \<le> i \<and> i \<le> 61 \<and> nat i < length sg)"
proof -
  from tx_loop_runs [OF assms(2,1), of cs sh]
  obtain sg' out where r: "tx_loop cs se sh sg = Inr (sg', out)"
    and m: "map fst out = [se .. min (60 + sh) 62 - 1]" by blast
  have e: "min (60 + sh) 62 - 1 = 59 + sh" using assms(4) by auto
  have q: "\<forall>i \<in> set (map fst out). se \<le> i \<and> i \<le> 61 \<and> nat i < length sg"
    unfolding m e using assms by auto
  from r m [unfolded e] q show ?thesis by blast
qed

theorem C9_loop_in_bounds_witness:
  "length (replicate 62 (0 :: 8 word)) = 62 \<and> (0::int) \<le> 58 \<and> (58::int) \<le> 61 \<and> ((2::int) = 0 \<or> (2::int) = 1 \<or> (2::int) = 2)
   \<and> (\<exists>sg' out. tx_loop False 58 2 (replicate 62 0) = Inr (sg', out)
           \<and> map fst out = [58 .. 59 + 2]
           \<and> (\<forall>i \<in> set (map fst out). 58 \<le> i \<and> i \<le> 61 \<and> nat i < length (replicate 62 (0 :: 8 word))))"
proof -
  have l: "length (replicate 62 (0 :: 8 word)) = 62" by simp
  have c: "\<exists>sg' out. tx_loop False 58 2 (replicate 62 0) = Inr (sg', out)
           \<and> map fst out = [58 .. 59 + 2]
           \<and> (\<forall>i \<in> set (map fst out). 58 \<le> i \<and> i \<le> 61 \<and> nat i < length (replicate 62 (0 :: 8 word)))"
    by (rule C9_loop_in_bounds [OF l]) simp_all
  show ?thesis by (intro conjI c l) simp_all
qed

lemma envelope_zero: "envelope False zero = [(True, 800), (False, 200)]"
  by (simp add: zero_def)

text \<open>
  C5. In every run of the transmission loop and for every slot it visits, the value the
  \<^verbatim>\<open>switch\<close> dispatches on is one of -1, 0, 1 and 255, so one of the three waveforms is
  played; and if the slot held any other value when the loop began, the loop has
  overwritten it with 0 and has played the waveform of \<^verbatim>\<open>zero\<close>: carrier on for 800 ms, off
  for 200 ms.
\<close>

theorem C5_coercion:
  assumes "tx_loop cs se sh sg = Inr (sg', out)" and "(i, v, w) \<in> set out"
  shows "v \<in> {- 1, 0, 1, 255}
       \<and> w = (if v = - 1 \<or> v = 255 then mark else if v = 0 then zero else one)
       \<and> (char_to_int cs (sg ! nat i) \<notin> {- 1, 0, 1, 255} \<longrightarrow>
            sg' ! nat i = 0 \<and> v = 0 \<and> w = zero \<and> envelope False w = [(True, 800), (False, 200)])"
proof -
  from tx_loop_sound [OF assms(1)] assms(2)
  have k: "nat i < length sg" and s: "snd (send_slot cs sg (nat i)) = (v, w)"
    and f: "sg' ! nat i = fst (send_slot cs sg (nat i)) ! nat i"
    by auto
  obtain sg1 where s1: "send_slot cs sg (nat i) = (sg1, v, w)"
    using s by (cases "send_slot cs sg (nat i)") auto
  note c = send_slot_checked [OF k s1]
  have "sg' ! nat i = 0 \<and> v = 0 \<and> w = zero \<and> envelope False w = [(True, 800), (False, 200)]"
    if "char_to_int cs (sg ! nat i) \<notin> {- 1, 0, 1, 255}"
    using send_slot_coerce [OF k that] s1 f k by (simp add: envelope_zero)
  with c show ?thesis by blast
qed

lemma tx_loop_example:
  "tx_loop False 58 0 (replicate 62 7) = Inr ((replicate 62 7)[58 := 0, 59 := 0], [(58, 0, zero), (59, 0, zero)])"
  by code_simp

theorem C5_coercion_witness:
  "tx_loop False 58 0 (replicate 62 7) = Inr ((replicate 62 7)[58 := 0, 59 := 0], [(58, 0, zero), (59, 0, zero)])
   \<and> (58, 0, zero) \<in> set [(58, 0, zero), (59, 0, zero)]
   \<and> char_to_int False (replicate 62 7 ! nat 58) \<notin> {- 1, 0, 1, 255}
   \<and> (0::int) \<in> {- 1, 0, 1, 255}
   \<and> zero = (if (0::int) = - 1 \<or> (0::int) = 255 then mark else if (0::int) = 0 then zero else one)
   \<and> (replicate 62 7)[58 := 0, 59 := 0] ! nat 58 = (0 :: 8 word)
   \<and> envelope False zero = [(True, 800), (False, 200)]"
proof -
  have m: "(58, 0, zero) \<in> set [(58, 0, zero), (59, 0, zero)]" by simp
  have c: "char_to_int False (replicate 62 7 ! nat 58) \<notin> {- 1, 0, 1, 255}"
    by (simp add: char_to_int_def)
  from C5_coercion [OF tx_loop_example m] c tx_loop_example m show ?thesis by blast
qed

section \<open>Waveform tables and the length of a pattern step\<close>

lemma waveform_tables:
  "envelope False mark = [(True, 200), (False, 800)]
   \<and> envelope False zero = [(True, 800), (False, 200)]
   \<and> envelope False one = [(True, 500), (False, 500)]
   \<and> duration mark = 1000 \<and> duration zero = 1000 \<and> duration one = 1000
   \<and> length sp_bpc = 5 * 10
   \<and> steps_of sp_bpc 0 = [0, 1, 1, 1, 1, 1, 1, 1, 1, 1]
   \<and> steps_of sp_bpc 1 = [0, 0, 1, 1, 1, 1, 1, 1, 1, 1]
   \<and> steps_of sp_bpc 2 = [0, 0, 0, 1, 1, 1, 1, 1, 1, 1]
   \<and> steps_of sp_bpc 3 = [0, 0, 0, 0, 1, 1, 1, 1, 1, 1]
   \<and> steps_of sp_bpc 4 = [0, 0, 0, 0, 0, 0, 0, 0, 0, 0]
   \<and> map (\<lambda>symbol. length (steps_of sp_bpc symbol)) [0, 1, 2, 3, 4] = [10, 10, 10, 10, 10]"
  by (simp add: mark_def zero_def one_def duration_def) code_simp

text \<open>
  The counters, one interrupt at a time. Below \<^verbatim>\<open>radiodiv\<close> an interrupt only counts;
  the interrupt that reaches \<^verbatim>\<open>radiodiv\<close> gives the semaphore, and the pass of \<^verbatim>\<open>loop\<close>
  that takes it counts \<^verbatim>\<open>ampc\<close> up, and \<^verbatim>\<open>tssec\<close> when \<^verbatim>\<open>ampc\<close> reaches \<^verbatim>\<open>AMPDIV\<close>.
\<close>

lemma tick_quiet:
  "radioc s + 1 < radiodiv s \<Longrightarrow> \<not> timerSemaphore s \<Longrightarrow> tick s = s\<lparr>radioc := radioc s + 1\<rparr>"
  by (simp add: tick_def onTimer_def loop_counters_def Let_def)

lemma tick_buzz:
  "radiodiv s \<le> radioc s + 1 \<Longrightarrow> buzzup s = 0 \<Longrightarrow>
   tick s = (if AMPDIV \<le> ampc s + 1
             then s\<lparr>radioc := 0, timerSemaphore := False, ampc := 0,
                    tssec := (if 10 \<le> tssec s + 1 then 0 else tssec s + 1)\<rparr>
             else s\<lparr>radioc := 0, timerSemaphore := False, ampc := ampc s + 1\<rparr>)"
  by (cases s) (simp add: tick_def onTimer_def loop_counters_def Let_def)

lemma quiet_run:
  "radioc s + int n < radiodiv s \<Longrightarrow> \<not> timerSemaphore s \<Longrightarrow>
   (tick ^^ n) s = s\<lparr>radioc := radioc s + int n\<rparr>"
proof (induction n)
  case 0
  show ?case by simp
next
  case (Suc n)
  then have ih: "(tick ^^ n) s = s\<lparr>radioc := radioc s + int n\<rparr>" by simp
  have "tick (s\<lparr>radioc := radioc s + int n\<rparr>) = s\<lparr>radioc := radioc s + int n + 1\<rparr>"
    using Suc.prems by (subst tick_quiet) simp_all
  then show ?case by (simp add: ih add.assoc)
qed

lemma buzz_period:
  assumes "at_rest s"
  shows "(tick ^^ nat (radiodiv s)) s =
           (if AMPDIV \<le> ampc s + 1
            then s\<lparr>ampc := 0, tssec := (if 10 \<le> tssec s + 1 then 0 else tssec s + 1)\<rparr>
            else s\<lparr>ampc := ampc s + 1\<rparr>)"
proof -
  from assms have r: "radioc s = 0" "buzzup s = 0" "\<not> timerSemaphore s" "0 < radiodiv s"
    by (simp_all add: at_rest_def)
  obtain n where n: "nat (radiodiv s) = Suc n" using r(4) by (cases "nat (radiodiv s)") auto
  then have d: "radiodiv s = int n + 1" using r(4) by linarith
  have q: "(tick ^^ n) s = s\<lparr>radioc := int n\<rparr>"
    using quiet_run [of s n] r d by simp
  have "(tick ^^ Suc n) s = tick (s\<lparr>radioc := int n\<rparr>)" by (simp add: q)
  also have "\<dots> = (if AMPDIV \<le> ampc s + 1
            then s\<lparr>ampc := 0, tssec := (if 10 \<le> tssec s + 1 then 0 else tssec s + 1)\<rparr>
            else s\<lparr>ampc := ampc s + 1\<rparr>)"
    using r d by (subst tick_buzz) (cases s, simp)+
  finally show ?thesis unfolding n .
qed

lemma within_period:
  assumes "at_rest s" "k < nat (radiodiv s)"
  shows "(tick ^^ k) s = s\<lparr>radioc := int k\<rparr>"
  using quiet_run [of s k] assms by (simp add: at_rest_def)

lemma periods:
  assumes "at_rest s" "ampc s = 0"
  shows "j \<le> 9 \<Longrightarrow> (tick ^^ (j * nat (radiodiv s))) s = s\<lparr>ampc := int j\<rparr>"
proof (induction j)
  case 0
  show ?case using assms(2) by (cases s) simp
next
  case (Suc j)
  then have ih: "(tick ^^ (j * nat (radiodiv s))) s = s\<lparr>ampc := int j\<rparr>" by simp
  have a: "at_rest (s\<lparr>ampc := int j\<rparr>)" using assms(1) by (simp add: at_rest_def)
  have "(tick ^^ (Suc j * nat (radiodiv s))) s
          = (tick ^^ nat (radiodiv s)) ((tick ^^ (j * nat (radiodiv s))) s)"
    by (simp add: funpow_add)
  also have "\<dots> = (tick ^^ nat (radiodiv (s\<lparr>ampc := int j\<rparr>))) (s\<lparr>ampc := int j\<rparr>)"
    by (simp add: ih)
  also have "\<dots> = s\<lparr>ampc := int (Suc j)\<rparr>"
    unfolding buzz_period [OF a] using Suc.prems by (simp add: AMPDIV_def add.commute)
  finally show ?case .
qed

text \<open>
  Every step of a pattern has the same length. From any state between two steps, for
  either station and whatever \<^verbatim>\<open>tssec\<close> holds, \<^verbatim>\<open>tssec\<close> keeps its value through the first
  \<open>10 * radiodiv - 1\<close> interrupts and moves on at interrupt number \<open>10 * radiodiv\<close>, which
  leaves the counters between two steps again.
\<close>

lemma pattern_step:
  assumes "at_rest s" "ampc s = 0"
  shows "(tick ^^ (10 * nat (radiodiv s))) s = s\<lparr>tssec := (if 10 \<le> tssec s + 1 then 0 else tssec s + 1)\<rparr>"
    and "n < 10 * nat (radiodiv s) \<Longrightarrow> tssec ((tick ^^ n) s) = tssec s"
proof -
  let ?R = "nat (radiodiv s)"
  have a: "at_rest (s\<lparr>ampc := 9\<rparr>)" using assms(1) by (simp add: at_rest_def)
  have t: "10 * ?R = ?R + 9 * ?R" by simp
  have "(tick ^^ (10 * ?R)) s = (tick ^^ ?R) ((tick ^^ (9 * ?R)) s)"
    unfolding t funpow_add by simp
  also have "\<dots> = (tick ^^ nat (radiodiv (s\<lparr>ampc := 9\<rparr>))) (s\<lparr>ampc := 9\<rparr>)"
    using periods [OF assms, of 9] by simp
  also have "\<dots> = s\<lparr>tssec := (if 10 \<le> tssec s + 1 then 0 else tssec s + 1)\<rparr>"
    unfolding buzz_period [OF a] using assms(2) by (cases s) (simp add: AMPDIV_def)
  finally show "(tick ^^ (10 * ?R)) s = s\<lparr>tssec := (if 10 \<le> tssec s + 1 then 0 else tssec s + 1)\<rparr>" .
next
  let ?R = "nat (radiodiv s)"
  assume n: "n < 10 * ?R"
  have p: "0 < ?R" using assms(1) by (simp add: at_rest_def)
  define j where "j = n div ?R"
  define k where "k = n mod ?R"
  have e: "n = k + j * ?R" by (simp add: j_def k_def)
  have k: "k < ?R" using p by (simp add: k_def)
  have j: "j \<le> 9"
  proof -
    have "j < 10" unfolding j_def using n p by (simp add: less_mult_imp_div_less mult.commute)
    then show ?thesis by simp
  qed
  have a: "at_rest (s\<lparr>ampc := int j\<rparr>)" using assms(1) by (simp add: at_rest_def)
  have k': "k < nat (radiodiv (s\<lparr>ampc := int j\<rparr>))" using k by simp
  have "(tick ^^ n) s = (tick ^^ k) ((tick ^^ (j * ?R)) s)"
    unfolding e by (simp add: funpow_add)
  also have "\<dots> = (tick ^^ k) (s\<lparr>ampc := int j\<rparr>)"
    using periods [OF assms j] by simp
  also have "\<dots> = s\<lparr>ampc := int j, radioc := int k\<rparr>"
    by (simp add: within_period [OF a k'])
  finally show "tssec ((tick ^^ n) s) = tssec s" by simp
qed

lemma started_at_rest:
  "at_rest (starttimer (setstation station globals_at_boot))
   \<and> ampc (starttimer (setstation station globals_at_boot)) = 0"
  by (simp add: at_rest_def starttimer_def setstation_def globals_at_boot_def)

lemma bpc_interrupts: "interrupts_to_step 2000 (starttimer (setstation SN_BPC globals_at_boot)) = Some 1370"
  by code_simp

lemma jjy_interrupts: "interrupts_to_step 2000 (starttimer (setstation SN_JJY_E globals_at_boot)) = Some 800"
  by code_simp

lemma bpc_step_micros: "step_micros 80 2000 (starttimer (setstation SN_BPC globals_at_boot)) = Some 9983"
  unfolding step_micros_def bpc_interrupts
  by (simp add: starttimer_def setstation_def globals_at_boot_def SN_BPC_def)

lemma jjy_step_micros: "step_micros 80 2000 (starttimer (setstation SN_JJY_E globals_at_boot)) = Some 10000"
  unfolding step_micros_def jjy_interrupts
  by (simp add: starttimer_def setstation_def globals_at_boot_def SN_JJY_E_def)

lemma station_constants:
  "tm0cycle (starttimer (setstation SN_BPC globals_at_boot)) = 583
   \<and> radiodiv (starttimer (setstation SN_BPC globals_at_boot)) = 137
   \<and> tm0cycle (starttimer (setstation SN_JJY_E globals_at_boot)) = 1000
   \<and> radiodiv (starttimer (setstation SN_JJY_E globals_at_boot)) = 80"
  by (simp add: starttimer_def setstation_def globals_at_boot_def SN_BPC_def SN_JJY_E_def)

text \<open>
  C6, on the sketches. \<^verbatim>\<open>mark\<close> holds the carrier on for 200 ms and off for 800 ms,
  \<^verbatim>\<open>zero\<close> on for 800 ms and off for 200 ms, \<^verbatim>\<open>one\<close> on for 500 ms and off for 500 ms, each
  1000 ms in all; and \<^verbatim>\<open>sp_bpc\<close> holds five patterns of exactly ten steps, one for each of
  the symbols 0..4. A step does not last 100 ms, though. In BPC mode, as \<^verbatim>\<open>setup\<close> starts
  the timer, the next entry of the pattern is selected after 1370 timer interrupts
  (\<^verbatim>\<open>AMPDIV\<close> times \<^verbatim>\<open>radiodiv = 137\<close>), which are \<^verbatim>\<open>tm0cycle = 583\<close> cycles of the timer's
  input clock apart: 798710 cycles, 9983 microseconds at the 80 MHz that the constant
  \<^verbatim>\<open>80000\<close> of \<^verbatim>\<open>setstation\<close> counts in kHz. In JJY mode it is 800 interrupts of 1000
  cycles, 10000 microseconds. The sketch's comments name a step of 0.1 s.
\<close>

theorem C6_waveforms_and_step_length:
  "envelope False mark = [(True, 200), (False, 800)]
   \<and> envelope False zero = [(True, 800), (False, 200)]
   \<and> envelope False one = [(True, 500), (False, 500)]
   \<and> duration mark = 1000 \<and> duration zero = 1000 \<and> duration one = 1000
   \<and> length sp_bpc = 5 * 10
   \<and> steps_of sp_bpc 0 = [0, 1, 1, 1, 1, 1, 1, 1, 1, 1]
   \<and> steps_of sp_bpc 1 = [0, 0, 1, 1, 1, 1, 1, 1, 1, 1]
   \<and> steps_of sp_bpc 2 = [0, 0, 0, 1, 1, 1, 1, 1, 1, 1]
   \<and> steps_of sp_bpc 3 = [0, 0, 0, 0, 1, 1, 1, 1, 1, 1]
   \<and> steps_of sp_bpc 4 = [0, 0, 0, 0, 0, 0, 0, 0, 0, 0]
   \<and> map (\<lambda>symbol. length (steps_of sp_bpc symbol)) [0, 1, 2, 3, 4] = [10, 10, 10, 10, 10]
   \<and> tm0cycle (starttimer (setstation SN_BPC globals_at_boot)) = 583
   \<and> radiodiv (starttimer (setstation SN_BPC globals_at_boot)) = 137
   \<and> interrupts_to_step 2000 (starttimer (setstation SN_BPC globals_at_boot)) = Some 1370
   \<and> step_micros 80 2000 (starttimer (setstation SN_BPC globals_at_boot)) = Some 9983
   \<and> tm0cycle (starttimer (setstation SN_JJY_E globals_at_boot)) = 1000
   \<and> radiodiv (starttimer (setstation SN_JJY_E globals_at_boot)) = 80
   \<and> interrupts_to_step 2000 (starttimer (setstation SN_JJY_E globals_at_boot)) = Some 800
   \<and> step_micros 80 2000 (starttimer (setstation SN_JJY_E globals_at_boot)) = Some 10000"
  using waveform_tables station_constants bpc_interrupts bpc_step_micros jjy_interrupts jjy_step_micros
  by blast

section \<open>The BPC repeat blocks\<close>

lemma quadize_loop_length [simp]: "length (quadize_loop i pos v bits60) = length bits60"
proof (induction i pos v bits60 rule: quadize_loop.induct)
  case (1 i pos v bits60)
  then show ?case by (subst quadize_loop.simps) simp
qed

lemma mb_bpc_fields_length [simp]: "length (mb_bpc_fields nowtm bits60) = length bits60"
  by (simp add: mb_bpc_fields_def quadize_def Let_def)

lemma copy_loop_done: "\<not> i < 20 \<Longrightarrow> copy_loop i b = b"
  by (subst copy_loop.simps) simp

lemma copy_loop_step:
  "i < 20 \<Longrightarrow> copy_loop i b = copy_loop (i + 1) (b[20 + i := b ! i, 40 + i := b ! i])"
  by (subst copy_loop.simps) (simp add: Let_def)

lemma copy_loop_spec:
  "length b = 60 \<Longrightarrow>
     length (copy_loop i0 b) = 60
   \<and> (\<forall>j. j < 20 + i0 \<or> (40 \<le> j \<and> j < 40 + i0) \<longrightarrow> copy_loop i0 b ! j = b ! j)
   \<and> (\<forall>i. i0 \<le> i \<and> i < 20 \<longrightarrow> copy_loop i0 b ! (20 + i) = b ! i \<and> copy_loop i0 b ! (40 + i) = b ! i)"
proof (induction i0 b rule: copy_loop.induct)
  case (1 i b)
  show ?case
  proof (cases "i < 20")
    case False
    then show ?thesis using "1.prems" by (auto simp: copy_loop_done)
  next
    case True
    define b1 where "b1 = b[20 + i := b ! i, 40 + i := b ! i]"
    have e: "(let b' = b[20 + i := b ! i] in b'[40 + i := b' ! i]) = b1"
      by (simp add: b1_def Let_def)
    have l1: "length b1 = 60" using "1.prems" by (simp add: b1_def)
    have c: "copy_loop i b = copy_loop (i + 1) b1"
      unfolding b1_def using True by (rule copy_loop_step)
    from "1.IH" [OF True, unfolded e, OF l1]
    have ih: "length (copy_loop (i + 1) b1) = 60"
      "\<And>j. j < 20 + (i + 1) \<or> (40 \<le> j \<and> j < 40 + (i + 1)) \<Longrightarrow> copy_loop (i + 1) b1 ! j = b1 ! j"
      "\<And>k. i + 1 \<le> k \<Longrightarrow> k < 20 \<Longrightarrow> copy_loop (i + 1) b1 ! (20 + k) = b1 ! k \<and> copy_loop (i + 1) b1 ! (40 + k) = b1 ! k"
      by auto
    have b1_low: "b1 ! k = b ! k" if "k < 20" for k
      using that by (simp add: b1_def)
    have b1_tgt: "b1 ! (20 + i) = b ! i" "b1 ! (40 + i) = b ! i"
      using True "1.prems" by (simp_all add: b1_def)
    have p2: "copy_loop i b ! j = b ! j" if "j < 20 + i \<or> (40 \<le> j \<and> j < 40 + i)" for j
    proof -
      from that have "j < 20 + (i + 1) \<or> (40 \<le> j \<and> j < 40 + (i + 1))" by auto
      from ih(2) [OF this] have "copy_loop i b ! j = b1 ! j" unfolding c .
      also from that True have "b1 ! j = b ! j" by (auto simp: b1_def)
      finally show ?thesis .
    qed
    have p3: "copy_loop i b ! (20 + k) = b ! k \<and> copy_loop i b ! (40 + k) = b ! k" if "i \<le> k" "k < 20" for k
    proof (cases "k = i")
      case True
      have "copy_loop (i + 1) b1 ! (20 + i) = b1 ! (20 + i)" by (rule ih(2)) simp
      moreover have "copy_loop (i + 1) b1 ! (40 + i) = b1 ! (40 + i)" by (rule ih(2)) simp
      ultimately show ?thesis unfolding c True using b1_tgt by simp
    next
      case False
      with that have "i + 1 \<le> k" by simp
      from ih(3) [OF this that(2)] b1_low [OF that(2)] show ?thesis unfolding c by simp
    qed
    from ih(1) p2 p3 show ?thesis unfolding c by blast
  qed
qed

text \<open>
  C8. For every time and every table of 60 slots, \<^verbatim>\<open>mb_bpc\<close> leaves the 18 slots 2..19
  as the fields and parities were written, and copies each of them to the slot 20 higher
  and the slot 40 higher: slots 22..39 and 42..59 repeat the time code of the first group.
\<close>

theorem C8_bpc_repeat:
  assumes "length bits60 = 60"
  shows "length (mb_bpc nowtm bits60) = 60
       \<and> (\<forall>i \<in> {2..<20}. mb_bpc nowtm bits60 ! i = mb_bpc_fields nowtm bits60 ! i
              \<and> mb_bpc nowtm bits60 ! (20 + i) = mb_bpc nowtm bits60 ! i
              \<and> mb_bpc nowtm bits60 ! (40 + i) = mb_bpc nowtm bits60 ! i)"
proof -
  have l: "length (mb_bpc_fields nowtm bits60) = 60" using assms by simp
  from copy_loop_spec [OF l, of 2] show ?thesis
    unfolding mb_bpc_def by auto
qed

theorem C8_bpc_repeat_witness:
  "length bits_bpc = 60 \<and> (2::nat) \<in> {2..<20} \<and> (19::nat) \<in> {2..<20}
   \<and> length (mb_bpc tm_153421 bits_bpc) = 60
   \<and> mb_bpc tm_153421 bits_bpc ! 2 = mb_bpc_fields tm_153421 bits_bpc ! 2
   \<and> mb_bpc tm_153421 bits_bpc ! (20 + 2) = mb_bpc tm_153421 bits_bpc ! 2
   \<and> mb_bpc tm_153421 bits_bpc ! (40 + 2) = mb_bpc tm_153421 bits_bpc ! 2
   \<and> mb_bpc tm_153421 bits_bpc ! 19 = mb_bpc_fields tm_153421 bits_bpc ! 19
   \<and> mb_bpc tm_153421 bits_bpc ! (20 + 19) = mb_bpc tm_153421 bits_bpc ! 19
   \<and> mb_bpc tm_153421 bits_bpc ! (40 + 19) = mb_bpc tm_153421 bits_bpc ! 19"
proof -
  have l: "length bits_bpc = 60" by (simp add: bits_bpc_def)
  have i: "(2::nat) \<in> {2..<20}" "(19::nat) \<in> {2..<20}" by simp_all
  from C8_bpc_repeat [OF l, of tm_153421] l i show ?thesis by blast
qed

lemma mb_bpc_example:
  "mb_bpc tm_153421 bits_bpc =
    [4, 0, 0, 0, 3, 2, 0, 2, 1, 2, 2, 1, 1, 1, 1, 2, 1, 2, 1, 0,
     4, 1, 0, 0, 3, 2, 0, 2, 1, 2, 2, 1, 1, 1, 1, 2, 1, 2, 1, 0,
     4, 2, 0, 0, 3, 2, 0, 2, 1, 2, 2, 1, 1, 1, 1, 2, 1, 2, 1, 0]"
  by code_simp

(*PROOFS*)
section \<open>The second computed from the sync anchor\<close>

lemma currentSecond_word:
  fixes ntpSyncedTime :: "'t::len word" and ntpSyncedMicros nowMicros :: "64 word"
  assumes "LENGTH('t) \<le> 64"
  shows "currentSecond ntpSyncedTime ntpSyncedMicros nowMicros
       = ntpSyncedTime + word_of_int (uint ((nowMicros - ntpSyncedMicros) div 1000000))"
proof -
  define q where "q = (nowMicros - ntpSyncedMicros) div 1000000"
  have d: "is_down (ucast :: 64 word \<Rightarrow> 't word)"
    using assms by (simp add: is_down)
  have "(scast ntpSyncedTime :: 64 word) + q = word_of_int (sint ntpSyncedTime) + word_of_int (uint q)"
    by (simp only: scast_eq word_of_int_uint)
  also have "\<dots> = word_of_int (sint ntpSyncedTime + uint q)"
    by (simp only: wi_homs)
  finally have "(ucast ((scast ntpSyncedTime :: 64 word) + q) :: 't word) = word_of_int (sint ntpSyncedTime + uint q)"
    by (simp only: ucast_down_wi [OF d])
  also have "\<dots> = word_of_int (sint ntpSyncedTime) + word_of_int (uint q)"
    by (simp only: wi_homs)
  also have "\<dots> = ntpSyncedTime + word_of_int (uint q)"
    by simp
  finally show ?thesis unfolding currentSecond_def q_def .
qed
lemma sub_uint:
  fixes ntpSyncedMicros nowMicros :: "64 word"
  assumes "ntpSyncedMicros \<le> nowMicros"
  shows "uint (nowMicros - ntpSyncedMicros) = uint nowMicros - uint ntpSyncedMicros"
  using assms uint_sub_lem [of ntpSyncedMicros nowMicros] unfolding word_le_def by blast

lemma elapsed_seconds:
  fixes ntpSyncedMicros nowMicros :: "64 word"
  assumes "ntpSyncedMicros \<le> nowMicros"
  shows "uint ((nowMicros - ntpSyncedMicros) div 1000000) = (uint nowMicros - uint ntpSyncedMicros) div 1000000"
  unfolding uint_div sub_uint [OF assms] by simp

lemma div_add_minutes: "((x::int) + 60000000 * k) div 1000000 = x div 1000000 + 60 * k"
  using div_mult_self1 [of 1000000 x "60 * k"] by simp

lemma sint_in_range:
  "- (2 ^ (LENGTH('t::len) - 1)) \<le> k \<Longrightarrow> k < 2 ^ (LENGTH('t) - 1) \<Longrightarrow> sint (word_of_int k :: 't word) = k"
  by (simp add: sint_sbintrunc' signed_take_bit_int_eq_self)

text \<open>
  C4. The computed second is the anchor's second plus the whole seconds elapsed on the
  timer since the anchor, \<open>(nowMicros - ntpSyncedMicros) div 1000000\<close> in integers:
  in the arithmetic of \<^verbatim>\<open>time_t\<close> always, and as an integer whenever the sum is a
  \<^verbatim>\<open>time_t\<close>. Between two readings of the timer that lie exactly \<open>k\<close> times 60,000,000
  microseconds apart, however long after the anchor, it advances by exactly \<open>60 * k\<close>;
  for \<open>k = 1\<close>, by exactly 60. The hypotheses are that \<^verbatim>\<open>time_t\<close> has at most 64 bits and
  that the timer has not run backwards since the anchor.
\<close>

theorem C4_drift_free:
  fixes ntpSyncedTime :: "'t::len word" and ntpSyncedMicros nowMicros nowMicros' :: "64 word" and k :: nat
  assumes "LENGTH('t) \<le> 64" and "ntpSyncedMicros \<le> nowMicros"
    and "uint nowMicros' = uint nowMicros + 60000000 * int k"
  shows "currentSecond ntpSyncedTime ntpSyncedMicros nowMicros
           = ntpSyncedTime + word_of_int ((uint nowMicros - uint ntpSyncedMicros) div 1000000)
       \<and> currentSecond ntpSyncedTime ntpSyncedMicros nowMicros'
           = currentSecond ntpSyncedTime ntpSyncedMicros nowMicros + 60 * of_nat k
       \<and> (- (2 ^ (LENGTH('t) - 1)) \<le> sint ntpSyncedTime + (uint nowMicros - uint ntpSyncedMicros) div 1000000
            \<and> sint ntpSyncedTime + (uint nowMicros - uint ntpSyncedMicros) div 1000000 < 2 ^ (LENGTH('t) - 1)
          \<longrightarrow> sint (currentSecond ntpSyncedTime ntpSyncedMicros nowMicros)
                = sint ntpSyncedTime + (uint nowMicros - uint ntpSyncedMicros) div 1000000)"
proof -
  define D where "D = uint nowMicros - uint ntpSyncedMicros"
  have a: "currentSecond ntpSyncedTime ntpSyncedMicros nowMicros = ntpSyncedTime + word_of_int (D div 1000000)"
    unfolding currentSecond_word [OF assms(1)] elapsed_seconds [OF assms(2)] D_def ..
  have "uint ntpSyncedMicros \<le> uint nowMicros" using assms(2) by (simp add: word_le_def)
  also have "uint nowMicros \<le> uint nowMicros'" unfolding assms(3) by simp
  finally have le': "ntpSyncedMicros \<le> nowMicros'" by (simp add: word_le_def)
  have D': "uint nowMicros' - uint ntpSyncedMicros = D + 60000000 * int k"
    unfolding assms(3) D_def by simp
  have "currentSecond ntpSyncedTime ntpSyncedMicros nowMicros'
          = ntpSyncedTime + word_of_int (D div 1000000 + 60 * int k)"
    unfolding currentSecond_word [OF assms(1)] elapsed_seconds [OF le'] D' div_add_minutes ..
  also have "(word_of_int (D div 1000000 + 60 * int k) :: 't word) = word_of_int (D div 1000000) + 60 * of_nat k"
    by (simp only: wi_homs [symmetric]) simp
  finally have b: "currentSecond ntpSyncedTime ntpSyncedMicros nowMicros'
          = currentSecond ntpSyncedTime ntpSyncedMicros nowMicros + 60 * of_nat k"
    unfolding a by (simp only: add.assoc)
  have c: "sint (currentSecond ntpSyncedTime ntpSyncedMicros nowMicros) = sint ntpSyncedTime + D div 1000000"
    if "- (2 ^ (LENGTH('t) - 1)) \<le> sint ntpSyncedTime + D div 1000000"
      "sint ntpSyncedTime + D div 1000000 < 2 ^ (LENGTH('t) - 1)"
  proof -
    have "(word_of_int (sint ntpSyncedTime + D div 1000000) :: 't word)
            = word_of_int (sint ntpSyncedTime) + word_of_int (D div 1000000)"
      by (simp only: wi_homs)
    also have "\<dots> = ntpSyncedTime + word_of_int (D div 1000000)"
      by simp
    finally show ?thesis unfolding a using sint_in_range [OF that] by simp
  qed
  from a b c show ?thesis unfolding D_def by blast
qed

theorem C4_drift_free_witness:
  "LENGTH(32) \<le> (64::nat) \<and> (5000000 :: 64 word) \<le> 65000123
   \<and> uint (125000123 :: 64 word) = uint (65000123 :: 64 word) + 60000000 * int 1
   \<and> currentSecond (1700000000 :: 32 word) 5000000 65000123
         = 1700000000 + word_of_int ((uint (65000123 :: 64 word) - uint (5000000 :: 64 word)) div 1000000)
   \<and> currentSecond (1700000000 :: 32 word) 5000000 125000123
         = currentSecond (1700000000 :: 32 word) 5000000 65000123 + 60 * of_nat 1
   \<and> - (2 ^ (LENGTH(32) - 1)) \<le> sint (1700000000 :: 32 word) + (uint (65000123 :: 64 word) - uint (5000000 :: 64 word)) div 1000000
   \<and> sint (1700000000 :: 32 word) + (uint (65000123 :: 64 word) - uint (5000000 :: 64 word)) div 1000000 < 2 ^ (LENGTH(32) - 1)
   \<and> sint (currentSecond (1700000000 :: 32 word) 5000000 65000123)
         = sint (1700000000 :: 32 word) + (uint (65000123 :: 64 word) - uint (5000000 :: 64 word)) div 1000000"
proof -
  have h: "LENGTH(32) \<le> (64::nat)" "(5000000 :: 64 word) \<le> 65000123"
    "uint (125000123 :: 64 word) = uint (65000123 :: 64 word) + 60000000 * int 1"
    by simp_all
  have r: "- (2 ^ (LENGTH(32) - 1)) \<le> sint (1700000000 :: 32 word) + (uint (65000123 :: 64 word) - uint (5000000 :: 64 word)) div 1000000"
    "sint (1700000000 :: 32 word) + (uint (65000123 :: 64 word) - uint (5000000 :: 64 word)) div 1000000 < 2 ^ (LENGTH(32) - 1)"
    by simp_all
  from C4_drift_free [OF h, of "1700000000 :: 32 word"] h r show ?thesis by blast
qed

section \<open>The time source: anchor or RTC\<close>

lemma time_source_rtc:
  fixes ntpSyncedTime :: "'t::len word"
  shows "time_source localtime_r esp_timer_get_time rtc 0 ntpSyncedTime =
     (if IsValid rtc
      then Some (Went \<lparr>tm_sec = Second rtc, tm_min = Minute rtc, tm_hour = Hour rtc, tm_mday = Day rtc,
                        tm_mon = Month rtc - 1, tm_year = Year rtc - 1900, tm_wday = DayOfWeek rtc\<rparr>)
      else Some Skipped)"
  by (simp add: time_source_def Let_def)

lemma resyncNTP_failure:
  assumes "\<not> wifi_connected env \<or> getLocalTime env = None"
  shows "resyncNTP env st = (st\<lparr>ntpSyncedMicros := 0\<rparr>, None)"
  using assms by (auto simp: resyncNTP_def)

text \<open>
  C7 fails on the sketch: with an anchor taken 5 s after boot and the RTC running, a
  resync attempt without WiFi leaves \<^verbatim>\<open>ntpSyncedMicros = 0\<close>. The anchor is gone, although
  no time source has reported anything invalid.
\<close>

theorem C7_anchor_dropped_counterexample:
  "ntpSyncedMicros anchored > 0 \<and> \<not> wifi_connected no_wifi \<and> IsValid rtc_running
   \<and> \<not> (ntpSyncedMicros (fst (resyncNTP no_wifi anchored)) > 0)
   \<and> fst (resyncNTP no_wifi anchored) \<noteq> anchored"
  by (simp add: anchored_def no_wifi_def rtc_running_def resyncNTP_def)

text \<open>
  \<^verbatim>\<open>printAndSendJJY\<close> transmits whenever the month it is given is a month: its loop over
  \<^verbatim>\<open>daysInMonth\<close> stays in the table, and with a second in 0..59 the transmission loop
  sends the slots from that second to 59.
\<close>

lemma yday_loop_total:
  "0 \<le> i \<Longrightarrow> mon \<le> 12 \<Longrightarrow> \<exists>y. yday_loop i mon yday = Inr y"
proof (induction i mon yday rule: yday_loop.induct)
  case (1 i mon yday)
  show ?case
  proof (cases "i < mon")
    case False
    then show ?thesis by (simp add: yday_loop_done)
  next
    case True
    with "1.prems" have b: "0 \<le> i \<and> nat i < length daysInMonth" by (auto simp: daysInMonth_def)
    have "0 \<le> i + 1" using "1.prems" by simp
    from "1.IH" [OF True b this "1.prems"(2)] obtain y where
      "yday_loop (i + 1) mon (yday + daysInMonth ! nat i) = Inr y" by blast
    moreover have "yday_loop i mon yday = yday_loop (i + 1) mon (yday + daysInMonth ! nat i)"
      using True b by (subst yday_loop.simps) simp
    ultimately show ?thesis by simp
  qed
qed

lemma compute_yday_total: "tm_mon timeInfo \<le> 12 \<Longrightarrow> \<exists>y. compute_yday timeInfo = Inr y"
proof -
  assume m: "tm_mon timeInfo \<le> 12"
  from yday_loop_total [OF _ m, of 0 "tm_mday timeInfo - 1"] obtain y where
    "yday_loop 0 (tm_mon timeInfo) (tm_mday timeInfo - 1) = Inr y" by auto
  then show ?thesis by (simp add: compute_yday_def Let_def)
qed

lemma build_frame_total:
  assumes "tm_mon timeInfo \<le> 12" "length sg = 62"
  shows "\<exists>sg1. build_frame timeInfo sg
           = Inr (sg1, (if tm_sec timeInfo = 60 then 59 else if tm_sec timeInfo = 61 then 58 else tm_sec timeInfo),
                       (if tm_sec timeInfo = 60 then 1 else if tm_sec timeInfo = 61 then 2 else 0))
         \<and> length sg1 = 62"
proof -
  from compute_yday_total [OF assms(1)] obtain y where y: "compute_yday timeInfo = Inr y" by blast
  show ?thesis using assms(2)
    by (simp add: build_frame_def y leap_adjust_def Let_def)
qed

lemma printAndSendJJY_transmits:
  assumes "tm_mon timeInfo \<le> 12" "length sg = 62" "0 \<le> tm_sec timeInfo" "tm_sec timeInfo \<le> 59"
  shows "\<exists>sg' out. printAndSendJJY cs timeInfo sg = Inr (sg', out)
           \<and> map fst out = [tm_sec timeInfo .. 59]"
proof -
  from build_frame_total [OF assms(1,2)] assms(4) obtain sg1 where
    b: "build_frame timeInfo sg = Inr (sg1, tm_sec timeInfo, 0)" and l: "length sg1 = 62" by auto
  from tx_loop_runs [OF assms(3) l, of cs 0] obtain sg' out where
    "tx_loop cs (tm_sec timeInfo) 0 sg1 = Inr (sg', out)" "map fst out = [tm_sec timeInfo .. 59]" by auto
  then show ?thesis by (simp add: printAndSendJJY_def b)
qed

text \<open>A pass of \<^verbatim>\<open>loop\<close> (ver. 0.12) without an anchor.\<close>

lemma loop_0_12_rtc:
  fixes st :: "'t::len sync_state" and mktime :: "tm \<Rightarrow> 't word \<times> tm"
  assumes "ntpSyncedMicros st = 0"
  shows "loop_0_12 cs localtime_r mktime esp_timer_get_time rtc millis syncInterval env st sg =
     (if IsValid rtc
      then Some (Went (case printAndSendJJY cs (snd (mktime (tm_of_rtc rtc))) sg of
                         Inl e \<Rightarrow> Inl e
                       | Inr sent \<Rightarrow> Inr (sent, resync_check millis syncInterval env st)))
      else Some Skipped)"
  using assms by (simp add: loop_0_12_def tm_of_rtc_def Let_def split: prod.splits sum.splits)

lemma loop_0_12_example:
  "loop_0_12 False localtime_123458 mktime_in_range timer_every_second rtc_running 21610000 21600000 no_wifi
       (anchored\<lparr>ntpSyncedMicros := 0\<rparr>) (replicate 62 0) =
     Some (Went (Inr (([255, 0, 1, 1, 0, 0, 1, 0, 0, 255, 0, 0, 0, 1, 0, 0, 0, 1, 0, 255,
                        0, 0, 1, 1, 0, 0, 0, 0, 1, 255, 1, 0, 0, 1, 0, 0, 0, 1, 0, 255,
                        0, 0, 0, 1, 0, 0, 0, 1, 1, 255, 0, 1, 1, 0, 0, 0, 0, 0, 0, 255,
                        0, 0],
                       [(58, 0, zero), (59, 255, mark)]),
                      anchored\<lparr>ntpSyncedMicros := 0\<rparr>, None)))"
  by code_simp

text \<open>
  C7 as amended. When a resync attempt fails (WiFi is not connected, or the time fetch
  fails), \<^verbatim>\<open>resyncNTP\<close> clears the anchor's timestamp, changes nothing else and writes
  nothing to the RTC. The next pass of \<^verbatim>\<open>loop\<close> (ver. 0.12, where \<^verbatim>\<open>resyncNTP\<close> is called)
  therefore takes its time from the RTC and not from the anchor. When the RTC reports no
  valid time the pass returns without transmitting. When it reports a valid time the pass
  runs \<^verbatim>\<open>mktime\<close> on the RTC's fields, hands the \<^verbatim>\<open>struct tm\<close> that \<^verbatim>\<open>mktime\<close> leaves to
  \<^verbatim>\<open>printAndSendJJY\<close>, and ends with its resync check; and when that \<^verbatim>\<open>struct tm\<close> has its
  month at most 11 and its second in 0..59, and \<^verbatim>\<open>sg\<close> its 62 slots, \<^verbatim>\<open>printAndSendJJY\<close>
  stays inside the array and transmits the slots from that second to 59.
\<close>

theorem C7_resync_failure_falls_back:
  fixes st :: "'t::len sync_state" and mktime :: "tm \<Rightarrow> 't word \<times> tm"
  assumes "\<not> wifi_connected env \<or> getLocalTime env = None"
  shows "resyncNTP env st = (st\<lparr>ntpSyncedMicros := 0\<rparr>, None)
       \<and> loop_0_12 cs localtime_r mktime esp_timer_get_time rtc millis syncInterval env'
            (fst (resyncNTP env st)) sg
           = (if IsValid rtc
              then Some (Went (case printAndSendJJY cs (snd (mktime (tm_of_rtc rtc))) sg of
                                 Inl e \<Rightarrow> Inl e
                               | Inr sent \<Rightarrow>
                                   Inr (sent, resync_check millis syncInterval env' (st\<lparr>ntpSyncedMicros := 0\<rparr>))))
              else Some Skipped)
       \<and> (IsValid rtc \<and> length sg = 62
            \<and> tm_mon (snd (mktime (tm_of_rtc rtc))) \<le> 11
            \<and> 0 \<le> tm_sec (snd (mktime (tm_of_rtc rtc))) \<and> tm_sec (snd (mktime (tm_of_rtc rtc))) \<le> 59
          \<longrightarrow> (\<exists>sg' out st' w.
                 loop_0_12 cs localtime_r mktime esp_timer_get_time rtc millis syncInterval env'
                   (fst (resyncNTP env st)) sg = Some (Went (Inr ((sg', out), st', w)))
                 \<and> printAndSendJJY cs (snd (mktime (tm_of_rtc rtc))) sg = Inr (sg', out)
                 \<and> map fst out = [tm_sec (snd (mktime (tm_of_rtc rtc))) .. 59]))"
proof -
  have f: "resyncNTP env st = (st\<lparr>ntpSyncedMicros := 0\<rparr>, None)"
    by (rule resyncNTP_failure [OF assms])
  have z: "ntpSyncedMicros (st\<lparr>ntpSyncedMicros := 0\<rparr>) = 0" by simp
  note l = loop_0_12_rtc [OF z, of cs localtime_r mktime esp_timer_get_time rtc millis syncInterval env' sg]
  have t: "\<exists>sg' out st' w.
             loop_0_12 cs localtime_r mktime esp_timer_get_time rtc millis syncInterval env'
               (st\<lparr>ntpSyncedMicros := 0\<rparr>) sg = Some (Went (Inr ((sg', out), st', w)))
             \<and> printAndSendJJY cs (snd (mktime (tm_of_rtc rtc))) sg = Inr (sg', out)
             \<and> map fst out = [tm_sec (snd (mktime (tm_of_rtc rtc))) .. 59]"
    if v: "IsValid rtc" and n: "length sg = 62"
      and m: "tm_mon (snd (mktime (tm_of_rtc rtc))) \<le> 11"
      and s: "0 \<le> tm_sec (snd (mktime (tm_of_rtc rtc)))" "tm_sec (snd (mktime (tm_of_rtc rtc))) \<le> 59"
  proof -
    from m have m': "tm_mon (snd (mktime (tm_of_rtc rtc))) \<le> 12" by simp
    from printAndSendJJY_transmits [OF m' n s, of cs] obtain sg' out where
      p: "printAndSendJJY cs (snd (mktime (tm_of_rtc rtc))) sg = Inr (sg', out)"
      and o: "map fst out = [tm_sec (snd (mktime (tm_of_rtc rtc))) .. 59]" by blast
    obtain st' w where r: "resync_check millis syncInterval env' (st\<lparr>ntpSyncedMicros := 0\<rparr>) = (st', w)"
      by (cases "resync_check millis syncInterval env' (st\<lparr>ntpSyncedMicros := 0\<rparr>)") auto
    have "loop_0_12 cs localtime_r mktime esp_timer_get_time rtc millis syncInterval env'
            (st\<lparr>ntpSyncedMicros := 0\<rparr>) sg = Some (Went (Inr ((sg', out), st', w)))"
      unfolding l using v by (simp add: p r)
    with p o show ?thesis by blast
  qed
  show ?thesis unfolding f fst_conv using l t by blast
qed

theorem C7_resync_failure_falls_back_witness:
  "getLocalTime no_wifi = None
   \<and> IsValid rtc_running \<and> \<not> IsValid rtc_dead \<and> length (replicate 62 (0 :: 8 word)) = 62
   \<and> snd (mktime_in_range (tm_of_rtc rtc_running))
         = \<lparr>tm_sec = 58, tm_min = 34, tm_hour = 12, tm_mday = 15, tm_mon = 10, tm_year = 123, tm_wday = 3\<rparr>
   \<and> resyncNTP no_wifi anchored = (anchored\<lparr>ntpSyncedMicros := 0\<rparr>, None)
   \<and> loop_0_12 False localtime_123458 mktime_in_range timer_every_second rtc_dead 21610000 21600000 no_wifi
         (fst (resyncNTP no_wifi anchored)) (replicate 62 0) = Some Skipped
   \<and> (\<exists>sg' out st' w.
         loop_0_12 False localtime_123458 mktime_in_range timer_every_second rtc_running 21610000 21600000 no_wifi
           (fst (resyncNTP no_wifi anchored)) (replicate 62 0) = Some (Went (Inr ((sg', out), st', w)))
         \<and> printAndSendJJY False (snd (mktime_in_range (tm_of_rtc rtc_running))) (replicate 62 0) = Inr (sg', out)
         \<and> map fst out = [58 .. 59])"
proof -
  have n: "getLocalTime no_wifi = None" by (simp add: no_wifi_def)
  then have h: "\<not> wifi_connected no_wifi \<or> getLocalTime no_wifi = None" ..
  have v: "IsValid rtc_running" "\<not> IsValid rtc_dead" by (simp_all add: rtc_running_def rtc_dead_def)
  have g: "length (replicate 62 (0 :: 8 word)) = 62" by simp
  have k: "snd (mktime_in_range (tm_of_rtc rtc_running))
         = \<lparr>tm_sec = 58, tm_min = 34, tm_hour = 12, tm_mday = 15, tm_mon = 10, tm_year = 123, tm_wday = 3\<rparr>"
    by (simp add: mktime_in_range_def tm_of_rtc_def rtc_running_def)
  have r: "tm_mon (snd (mktime_in_range (tm_of_rtc rtc_running))) \<le> 11"
    "0 \<le> tm_sec (snd (mktime_in_range (tm_of_rtc rtc_running)))"
    "tm_sec (snd (mktime_in_range (tm_of_rtc rtc_running))) \<le> 59"
    "tm_sec (snd (mktime_in_range (tm_of_rtc rtc_running))) = 58"
    by (simp_all add: k)
  note a = C7_resync_failure_falls_back [OF h, of anchored False localtime_123458 mktime_in_range
      timer_every_second rtc_running 21610000 21600000 no_wifi "replicate 62 0"]
  note d = C7_resync_failure_falls_back [OF h, of anchored False localtime_123458 mktime_in_range
      timer_every_second rtc_dead 21610000 21600000 no_wifi "replicate 62 0"]
  from d [unfolded if_not_P [OF v(2)]]
  have s: "loop_0_12 False localtime_123458 mktime_in_range timer_every_second rtc_dead
         21610000 21600000 no_wifi (fst (resyncNTP no_wifi anchored)) (replicate 62 0) = Some Skipped"
    by blast
  from a v(1) g r(1,2,3) have "\<exists>sg' out st' w.
         loop_0_12 False localtime_123458 mktime_in_range timer_every_second rtc_running 21610000 21600000 no_wifi
           (fst (resyncNTP no_wifi anchored)) (replicate 62 0) = Some (Went (Inr ((sg', out), st', w)))
         \<and> printAndSendJJY False (snd (mktime_in_range (tm_of_rtc rtc_running))) (replicate 62 0) = Inr (sg', out)
         \<and> map fst out = [tm_sec (snd (mktime_in_range (tm_of_rtc rtc_running))) .. 59]"
    by blast
  then have t: "\<exists>sg' out st' w.
         loop_0_12 False localtime_123458 mktime_in_range timer_every_second rtc_running 21610000 21600000 no_wifi
           (fst (resyncNTP no_wifi anchored)) (replicate 62 0) = Some (Went (Inr ((sg', out), st', w)))
         \<and> printAndSendJJY False (snd (mktime_in_range (tm_of_rtc rtc_running))) (replicate 62 0) = Inr (sg', out)
         \<and> map fst out = [58 .. 59]"
    unfolding r(4) .
  from a have f: "resyncNTP no_wifi anchored = (anchored\<lparr>ntpSyncedMicros := 0\<rparr>, None)" by blast
  from n v g k f s t show ?thesis by blast
qed

text \<open>
  C10. While \<^verbatim>\<open>ntpSyncedMicros > 0\<close>, a pass of \<^verbatim>\<open>loop\<close> gets its time from the anchor, the
  timer and \<^verbatim>\<open>localtime_r\<close> alone: with everything else equal, two passes that differ
  in what the RTC holds, valid or not, end alike and transmit the same symbols.
\<close>

theorem C10_ntp_mode_ignores_rtc:
  fixes ntpSyncedTime :: "'t::len word" and ntpSyncedMicros :: "64 word"
  assumes "ntpSyncedMicros > 0"
  shows "time_source localtime_r esp_timer_get_time rtc1 ntpSyncedMicros ntpSyncedTime
           = time_source localtime_r esp_timer_get_time rtc2 ntpSyncedMicros ntpSyncedTime
       \<and> loop char_signed localtime_r esp_timer_get_time rtc1 ntpSyncedMicros ntpSyncedTime sg
           = loop char_signed localtime_r esp_timer_get_time rtc2 ntpSyncedMicros ntpSyncedTime sg"
  using assms by (simp add: loop_def time_source_def)

lemma loop_example:
  "loop False localtime_123458 timer_every_second rtc_dead 5000000 1700000000 (replicate 62 0) =
     Some (Went (Inr ([255, 0, 1, 1, 0, 0, 1, 0, 0, 255, 0, 0, 0, 1, 0, 0, 0, 1, 0, 255,
                       0, 0, 1, 1, 0, 0, 0, 0, 1, 255, 1, 0, 0, 1, 0, 0, 0, 1, 0, 255,
                       0, 0, 0, 1, 0, 0, 0, 1, 1, 255, 0, 1, 1, 0, 0, 0, 0, 0, 0, 255,
                       0, 0],
                      [(58, 0, zero), (59, 255, mark)])))"
  by code_simp

theorem C10_ntp_mode_ignores_rtc_witness:
  "(5000000 :: 64 word) > 0
   \<and> time_source localtime_123458 timer_every_second rtc_running 5000000 1700000000
        = time_source localtime_123458 timer_every_second rtc_dead 5000000 1700000000
   \<and> loop False localtime_123458 timer_every_second rtc_running 5000000 1700000000 (replicate 62 0)
        = loop False localtime_123458 timer_every_second rtc_dead 5000000 1700000000 (replicate 62 0)"
proof -
  have h: "(5000000 :: 64 word) > 0" by simp
  from C10_ntp_mode_ignores_rtc [OF h] h show ?thesis by blast
qed

end
